theory Spec2Isabelle
  imports Complex_Main
begin

unbundle bit_operations_syntax

section \<open>Funnel Transformer: shallow embedding of modeling\_funnel.py\<close>

text \<open>
  Tensors are nested lists in row-major order: a tensor of shape \<open>[B, T]\<close> is a list of
  \<open>B\<close> rows of length \<open>T\<close>, and so on for higher ranks.  A nested list does not record
  the lengths of the inner axes of a tensor whose batch axis is empty, so the properties
  below are stated for rectangular tensors with a non-empty batch axis.  The entries of
  the hidden states and masks are real numbers: the rounding of floating-point arithmetic
  is not part of the model.  Every exception the Python code can raise is a value of type
  \<open>error\<close>; a function that can raise returns \<open>error + 'a\<close> with \<open>Inl\<close> for the
  exception, and a function that also changes the state of an object returns the new
  state beside its result.
\<close>

datatype error =
    IndexError
  | ValueError string
  | NotImplementedError string
  | RecursionError
  | RuntimeError string
  | TypeError

subsection \<open>Python slicing and \<open>ops.arange\<close>\<close>

text \<open>\<open>xs[:n]\<close> for a possibly negative bound \<open>n\<close>.\<close>

definition slice_to :: "int \<Rightarrow> 'a list \<Rightarrow> 'a list" where
  "slice_to n xs =
     (if 0 \<le> n then take (nat n) xs else take (length xs - nat (- n)) xs)"

text \<open>
  Integer tensors hold 64-bit signed integers.  Arithmetic between such tensors wraps
  around; a Python integer that does not fit into 64 bits cannot be combined with a tensor
  or turned into one, and the operation raises.
\<close>

definition fits_int64 :: "int \<Rightarrow> bool" where
  "fits_int64 x \<longleftrightarrow> - (2 ^ 63) \<le> x \<and> x < 2 ^ 63"

definition wrap_int64 :: "int \<Rightarrow> int" where
  "wrap_int64 x = (x + 2 ^ 63) mod 2 ^ 64 - 2 ^ 63"

text \<open>
  Modelled from the spec: \<open>ops.arange\<close> (mindnlp.core.ops, not among the source files).
  \<open>ops.arange(start, stop, step, dtype=int64)\<close> is the arithmetic sequence
  \<open>start, start + step, ...\<close> of the values strictly before \<open>stop\<close> in the direction of
  \<open>step\<close>; a zero step is rejected, and so are bounds and steps outside the 64-bit range.
\<close>

function arange_from :: "int \<Rightarrow> int \<Rightarrow> int \<Rightarrow> int list" where
  "arange_from cur stop step =
     (if 0 < step \<and> cur < stop then cur # arange_from (cur + step) stop step
      else if step < 0 \<and> stop < cur then cur # arange_from (cur + step) stop step
      else [])"
  by pat_completeness auto
termination
  by (relation "measure (\<lambda>(cur, stop, step). nat (if 0 < step then stop - cur else cur - stop))")
     auto

definition arange :: "int \<Rightarrow> int \<Rightarrow> int \<Rightarrow> error + int list" where
  "arange start stop step =
     (if step = 0 then Inl (ValueError ''step must be nonzero'')
      else if \<not> (fits_int64 start \<and> fits_int64 stop \<and> fits_int64 step)
      then Inl (RuntimeError ''value cannot be converted to int64 without overflow'')
      else Inr (arange_from start stop step))"

subsection \<open>\<open>FunnelAttentionStructure.relative_pos\<close>\<close>

text \<open>
  \<open>pos\<close> and \<open>pooled_pos\<close> are one-dimensional tensors of 64-bit integer positions;
  \<open>pooled_pos = None\<close> selects \<open>pos\<close>.  Indexing an empty tensor with \<open>[0]\<close> or
  \<open>[-1]\<close> raises \<open>IndexError\<close>.  \<open>ref_point\<close>, \<open>max_dist\<close> and \<open>min_dist\<close> are tensors,
  \<open>stride\<close>, \<open>shift\<close> and \<open>num_remove\<close> are Python integers: the sum
  \<open>ref_point + num_remove * stride\<close> raises when the product does not fit into 64 bits.
\<close>

definition relative_pos :: "int list \<Rightarrow> int \<Rightarrow> int list option \<Rightarrow> int \<Rightarrow> error + int list" where
  "relative_pos pos stride pooled_pos_arg shift =
     (let pooled_pos = (case pooled_pos_arg of None \<Rightarrow> pos | Some p \<Rightarrow> p) in
      if pooled_pos = [] \<or> pos = [] then Inl IndexError
      else
        let ref_point = wrap_int64 (hd pooled_pos - hd pos);
            num_remove = shift * int (length pooled_pos)
        in if \<not> fits_int64 (num_remove * stride)
           then Inl (RuntimeError ''value cannot be converted to int64 without overflow'')
           else
             let max_dist = wrap_int64 (ref_point + num_remove * stride);
                 min_dist = wrap_int64 (hd pooled_pos - last pos)
             in arange max_dist (min_dist - 1) (- stride))"

text \<open>The quantities the specification names, as functions of the arguments.\<close>

definition rel_max_dist :: "int list \<Rightarrow> int \<Rightarrow> int list \<Rightarrow> int \<Rightarrow> int" where
  "rel_max_dist pos stride pooled_pos shift =
     (hd pooled_pos - hd pos) + stride * shift * int (length pooled_pos)"

definition rel_min_dist :: "int list \<Rightarrow> int list \<Rightarrow> int" where
  "rel_min_dist pos pooled_pos = hd pooled_pos - last pos"

text \<open>
  The distances that \<open>relative_pos\<close> computes stay within the 64-bit range: the reference
  point, the product \<open>stride * shift * len(pooled_pos)\<close>, the maximal distance, and the
  minimal distance less one (the bound given to \<open>ops.arange\<close>).
\<close>

definition distances_fit_int64 :: "int list \<Rightarrow> int \<Rightarrow> int list \<Rightarrow> int \<Rightarrow> bool" where
  "distances_fit_int64 pos stride pooled_pos shift \<longleftrightarrow>
     fits_int64 (hd pooled_pos - hd pos)
     \<and> fits_int64 (stride * shift * int (length pooled_pos))
     \<and> fits_int64 (rel_max_dist pos stride pooled_pos shift)
     \<and> fits_int64 (rel_min_dist pos pooled_pos - 1)"

subsection \<open>\<open>upsample\<close>\<close>

text \<open>
  Modelled from the spec: \<open>ops.repeat_interleave\<close> and \<open>ops.pad\<close> (mindnlp.core.ops, not
  among the source files), as they act on one batch entry of a tensor \<open>x\<close> of shape
  \<open>[B, T, H]\<close>.  \<open>ops.repeat_interleave(x, repeats, dim=1)\<close> repeats every token
  \<open>repeats\<close> times in place (the integer repetition of the specification);
  \<open>ops.pad(output, (0, 0, 0, p, 0, 0))\<close> appends \<open>p\<close> zero tokens along the sequence axis
  (a negative \<open>p\<close> crops, and fails on a sequence that is too short).
\<close>

definition repeat_interleave :: "nat \<Rightarrow> 'a list \<Rightarrow> 'a list" where
  "repeat_interleave repeats xs = concat (map (replicate repeats) xs)"

definition pad_seq_end :: "int \<Rightarrow> real list list \<Rightarrow> error + real list list" where
  "pad_seq_end p row =
     (if 0 \<le> p then
        Inr (row @ replicate (nat p) (map (\<lambda>_. 0) (case row of [] \<Rightarrow> [] | v # _ \<Rightarrow> v)))
      else if nat (- p) \<le> length row then Inr (take (length row - nat (- p)) row)
      else Inl (RuntimeError ''negative padding exceeds the dimension''))"

fun sequence_sum :: "('e + 'a) list \<Rightarrow> 'e + 'a list" where
  "sequence_sum [] = Inr []"
| "sequence_sum (Inl e # _) = Inl e"
| "sequence_sum (Inr x # rest) =
     (case sequence_sum rest of Inl e \<Rightarrow> Inl e | Inr xs \<Rightarrow> Inr (x # xs))"

definition upsample ::
  "real list list list \<Rightarrow> nat \<Rightarrow> int \<Rightarrow> bool \<Rightarrow> bool \<Rightarrow> error + real list list list" where
  "upsample x stride target_len sep_cls trunc_seq =
     (if stride = 1 then Inr x
      else if sep_cls then
        (let cls = map (take 1) x;
             x' = map (drop 1) x;
             output = map (repeat_interleave stride) x'
         in case (if trunc_seq
                  then sequence_sum (map (pad_seq_end (int stride - 1)) output)
                  else Inr output) of
              Inl e \<Rightarrow> Inl e
            | Inr output' \<Rightarrow>
                Inr (map2 (\<lambda>c out. c @ slice_to (target_len - 1) out) cls output'))
      else Inr (map (slice_to target_len) (map (repeat_interleave stride) x)))"

subsection \<open>\<open>_relative_shift_gather\<close>\<close>

text \<open>
  \<open>positional_attn\<close> has shape \<open>[batch_size, n_head, seq_len, max_rel_len]\<close>.  The shape
  is read off the nested list (the length of the first element along each axis).

  Modelled from the spec: \<open>ops.reshape\<close> (mindnlp.core.ops, not among the source files).
  A reshape keeps the row-major order of the elements: the element at index
  \<open>(b, h, i, j)\<close> of the new shape \<open>[d0, d1, d2, d3]\<close> is the element at position
  \<open>((b * d1 + h) * d2 + i) * d3 + j\<close> of the flattened tensor; it fails when the number
  of elements differs.  In \<open>_relative_shift_gather\<close> the second reshape is given the
  dimension \<open>max_rel_len - shift\<close>.  When that is \<open>-1\<close> the dimension is inferred: all
  rows have been dropped, so it is 0 and the result is empty along the last axis (the
  inference is ambiguous, and fails, when another dimension is 0 as well).  Any other
  negative dimension is rejected.
\<close>

definition first_len :: "'a list list \<Rightarrow> nat" where
  "first_len xs = (case xs of [] \<Rightarrow> 0 | x # _ \<Rightarrow> length x)"

definition shape4 :: "'a list list list list \<Rightarrow> nat \<times> nat \<times> nat \<times> nat" where
  "shape4 t = (length t, first_len t, first_len (concat t), first_len (concat (concat t)))"

definition reshape4 ::
  "'a list list list list \<Rightarrow> nat \<Rightarrow> nat \<Rightarrow> nat \<Rightarrow> nat \<Rightarrow> error + 'a list list list list" where
  "reshape4 t d0 d1 d2 d3 =
     (let flat = concat (concat (concat t)) in
      if length flat \<noteq> d0 * d1 * d2 * d3
      then Inl (RuntimeError ''shape is invalid for input size'')
      else Inr (map (\<lambda>b. map (\<lambda>h. map (\<lambda>i. map (\<lambda>j.
                  flat ! (((b * d1 + h) * d2 + i) * d3 + j))
                [0..<d3]) [0..<d2]) [0..<d1]) [0..<d0]))"

definition relative_shift_gather ::
  "'a list list list list \<Rightarrow> nat \<Rightarrow> nat \<Rightarrow> error + 'a list list list list" where
  "relative_shift_gather positional_attn context_len shift =
     (case shape4 positional_attn of (batch_size, n_head, q_len, max_rel_len) \<Rightarrow>
       (case reshape4 positional_attn batch_size n_head max_rel_len q_len of
          Inl e \<Rightarrow> Inl e
        | Inr t1 \<Rightarrow>
            let t2 = map (map (drop shift)) t1 in
            if max_rel_len + 1 < shift then Inl (RuntimeError ''invalid shape dimension'')
            else if max_rel_len + 1 = shift then
              (if batch_size * n_head * q_len = 0
               then Inl (RuntimeError ''the unspecified dimension is ambiguous'')
               else Inr (replicate batch_size (replicate n_head (replicate q_len []))))
            else
              (case reshape4 t2 batch_size n_head q_len (max_rel_len - shift) of
                 Inl e \<Rightarrow> Inl e
               | Inr t3 \<Rightarrow> Inr (map (map (map (take context_len))) t3))))"

text \<open>A tensor is well formed when it is rectangular with the given shape.\<close>

definition has_shape4 :: "'a list list list list \<Rightarrow> nat \<Rightarrow> nat \<Rightarrow> nat \<Rightarrow> nat \<Rightarrow> bool" where
  "has_shape4 t d0 d1 d2 d3 \<longleftrightarrow>
     length t = d0 \<and> (\<forall>a \<in> set t. length a = d1 \<and>
       (\<forall>b \<in> set a. length b = d2 \<and> (\<forall>c \<in> set b. length c = d3)))"

subsection \<open>Configuration\<close>

text \<open>The fields of \<open>FunnelConfig\<close> that the modelled code reads.\<close>

record config =
  separate_cls :: bool
  truncate_seq :: bool
  pool_q_only :: bool
  pooling_type :: string
  attention_type :: string
  block_sizes :: "nat list"
  block_repeats :: "nat list"
  num_decoder_layers :: nat

text \<open>
  Modelled from the spec: \<open>FunnelConfig.num_blocks\<close> (configuration\_funnel.py is not among
  the source files).  The encoder builds one block per entry of \<open>block_sizes\<close>, so the
  number of blocks is the length of that list.
\<close>

definition num_blocks :: "config \<Rightarrow> nat" where
  "num_blocks cfg = length (block_sizes cfg)"

type_synonym tensor2 = "real list list"
type_synonym tensor3 = "real list list list"

text \<open>\<open>tensor.shape[1]\<close> of a tensor with a non-empty batch axis.\<close>

definition shape1 :: "'a list list \<Rightarrow> nat" where
  "shape1 t = first_len t"

subsection \<open>\<open>stride_pool\<close>\<close>

text \<open>\<open>xs[::2]\<close>.\<close>

fun every_second :: "'a list \<Rightarrow> 'a list" where
  "every_second [] = []"
| "every_second [x] = [x]"
| "every_second (x # y # xs) = x # every_second xs"

text \<open>
  \<open>stride_pool(tensor, axis)\<close> on a single tensor, as it acts on the list of entries along
  \<open>axis\<close>: with \<open>separate_cls\<close> the entry at index 0 is put in front once more, then every
  second entry is taken (of all but the last one when \<open>truncate_seq\<close> is set too).  For a
  deeper axis the same function is mapped over the outer axes.
\<close>

definition stride_pool_axis :: "config \<Rightarrow> 'a list \<Rightarrow> 'a list" where
  "stride_pool_axis cfg xs =
     (let ys = (if separate_cls cfg then take 1 xs @ xs else xs)
      in if separate_cls cfg \<and> truncate_seq cfg then every_second (butlast ys)
         else every_second ys)"

definition stride_pool_0 :: "config \<Rightarrow> 'a list \<Rightarrow> 'a list" where
  "stride_pool_0 cfg t = stride_pool_axis cfg t"

definition stride_pool_1 :: "config \<Rightarrow> 'a list list \<Rightarrow> 'a list list" where
  "stride_pool_1 cfg t = map (stride_pool_axis cfg) t"

definition stride_pool_2 :: "config \<Rightarrow> 'a list list list \<Rightarrow> 'a list list list" where
  "stride_pool_2 cfg t = map (map (stride_pool_axis cfg)) t"

subsection \<open>\<open>pool_tensor\<close>\<close>

text \<open>The windows of \<open>k\<close> consecutive entries; with ceiling rounding the last one may be shorter.\<close>

function windows :: "nat \<Rightarrow> 'a list \<Rightarrow> 'a list list" where
  "windows k xs = (if k = 0 \<or> xs = [] then [] else take k xs # windows k (drop k xs))"
  by pat_completeness auto
termination
  by (relation "measure (\<lambda>(k, xs). length xs)") auto

definition window_mean :: "real list \<Rightarrow> real" where
  "window_mean xs = sum_list xs / real (length xs)"

definition window_max :: "real list \<Rightarrow> real" where
  "window_max xs = fold max (tl xs) (hd xs)"

text \<open>
  Modelled from the spec: \<open>F.avg_pool2d\<close> and \<open>F.max_pool2d\<close> (mindnlp.core.nn.functional,
  not among the source files), called with kernel and stride \<open>(stride, 1)\<close> and
  \<open>ceil_mode=True\<close> on one \<open>[T, W]\<close> plane: one-dimensional windowed pooling over the
  sequence axis, separately for each of the \<open>W\<close> columns, with ceiling rounding so that
  \<open>ceil(T / stride)\<close> outputs are produced; a window that reaches past the end covers the
  entries that exist.  An empty sequence axis and a zero stride are rejected.
\<close>

definition pool_plane :: "(real list \<Rightarrow> real) \<Rightarrow> nat \<Rightarrow> real list list \<Rightarrow> error + real list list" where
  "pool_plane reduce stride plane =
     (if stride = 0 then Inl (RuntimeError ''stride should be greater than zero'')
      else if plane = [] then Inl (RuntimeError ''output size is too small'')
      else Inr (map (\<lambda>w. map reduce (transpose w)) (windows stride plane)))"

definition avg_pool2d :: "nat \<Rightarrow> real list list \<Rightarrow> error + real list list" where
  "avg_pool2d stride plane = pool_plane window_mean stride plane"

definition max_pool2d :: "nat \<Rightarrow> real list list \<Rightarrow> error + real list list" where
  "max_pool2d stride plane = pool_plane window_max stride plane"

text \<open>The branch on \<open>mode\<close>; \<open>min\<close> is \<open>-max_pool2d(-tensor)\<close>.\<close>

definition pool_mode :: "string \<Rightarrow> nat \<Rightarrow> real list list \<Rightarrow> error + real list list" where
  "pool_mode mode stride plane =
     (if mode = ''mean'' then avg_pool2d stride plane
      else if mode = ''max'' then max_pool2d stride plane
      else if mode = ''min'' then
        map_sum id (map (map uminus)) (max_pool2d stride (map (map uminus) plane))
      else Inl (NotImplementedError ''The supported modes are mean, max and min.''))"

text \<open>
  The argument of \<open>pool_tensor\<close>: \<open>None\<close>, a tensor of shape \<open>[B, T]\<close> or \<open>[B, T, H]\<close>, or a
  tuple or list of such values.
\<close>

datatype pyval =
    PNone
  | Tensor2 tensor2
  | Tensor3 tensor3
  | PTuple "pyval list"
  | PList "pyval list"

text \<open>\<open>tensor = cat([tensor[:, :1], suffix], dim=1)\<close> with \<open>suffix = tensor[:, :-1]\<close> under \<open>truncate_seq\<close>.\<close>

definition cls_prefix :: "config \<Rightarrow> 'a list list \<Rightarrow> 'a list list" where
  "cls_prefix cfg t =
     (if separate_cls cfg
      then map (\<lambda>row. take 1 row @ (if truncate_seq cfg then butlast row else row)) t
      else t)"

text \<open>
  \<open>pool_tensor\<close>.  The first argument after the configuration bounds the depth of nested
  calls, as the interpreter's recursion limit does: a call that would exceed it raises
  \<open>RecursionError\<close>.  On a tuple or list the source calls itself on the whole argument
  \<open>tensor\<close> once for every element \<open>x\<close>.  A tensor of shape \<open>[B, T]\<close> is pooled as
  \<open>[B, 1, T, 1]\<close>, one of shape \<open>[B, T, H]\<close> as \<open>[B, 1, T, H]\<close>.
\<close>

fun pool_tensor :: "config \<Rightarrow> nat \<Rightarrow> pyval \<Rightarrow> string \<Rightarrow> nat \<Rightarrow> error + pyval" where
  "pool_tensor cfg 0 tensor mode stride = Inl RecursionError"
| "pool_tensor cfg (Suc depth) PNone mode stride = Inr PNone"
| "pool_tensor cfg (Suc depth) (PTuple xs) mode stride =
     map_sum id PTuple
       (sequence_sum (map (\<lambda>x. pool_tensor cfg depth (PTuple xs) mode stride) xs))"
| "pool_tensor cfg (Suc depth) (PList xs) mode stride =
     map_sum id PList
       (sequence_sum (map (\<lambda>x. pool_tensor cfg depth (PList xs) mode stride) xs))"
| "pool_tensor cfg (Suc depth) (Tensor2 t) mode stride =
     map_sum id Tensor2
       (sequence_sum (map (\<lambda>row. map_sum id (map hd) (pool_mode mode stride (map (\<lambda>x. [x]) row)))
          (cls_prefix cfg t)))"
| "pool_tensor cfg (Suc depth) (Tensor3 t) mode stride =
     map_sum id Tensor3 (sequence_sum (map (pool_mode mode stride) (cls_prefix cfg t)))"

text \<open>Python's default recursion limit.\<close>

definition recursion_limit :: nat where
  "recursion_limit = 1000"

subsection \<open>\<open>token_type_ids_to_mat\<close>\<close>

definition cls_token_type_id :: int where
  "cls_token_type_id = 2"

text \<open>
  \<open>token_type_ids\<close> has shape \<open>[B, T]\<close>.  The comparisons give booleans, \<open>.int()\<close> turns them
  into 0 and 1, \<open>|\<close> is the bitwise or of integers and \<open>.bool()\<close> tests for non-zero.
\<close>

definition token_type_ids_to_mat :: "int list list \<Rightarrow> bool list list list" where
  "token_type_ids_to_mat token_type_ids =
     map (\<lambda>ids. map (\<lambda>a. map (\<lambda>b.
            (let token_type = (a = b);
                 cls_mat = (of_bool (a = cls_token_type_id) :: int) OR of_bool (b = cls_token_type_id)
             in (cls_mat OR of_bool token_type) \<noteq> 0))
          ids) ids) token_type_ids"

subsection \<open>\<open>init_attention_inputs\<close>\<close>

text \<open>
  Modelled from the spec: \<open>F.pad\<close> (mindnlp.core.nn.functional, not among the source
  files) on a matrix with \<open>ncols\<close> columns, for the padding \<open>(left, right, top, bottom)\<close>
  of the last two axes in constant mode: the entries added hold the fill value \<open>v\<close>.
\<close>

definition F_pad :: "real list list \<Rightarrow> nat \<Rightarrow> nat \<times> nat \<times> nat \<times> nat \<Rightarrow> real \<Rightarrow> real list list" where
  "F_pad m ncols padding v =
     (case padding of (pad_left, pad_right, pad_top, pad_bottom) \<Rightarrow>
        replicate pad_top (replicate (pad_left + ncols + pad_right) v)
        @ map (\<lambda>row. replicate pad_left v @ row @ replicate pad_right v) m
        @ replicate pad_bottom (replicate (pad_left + ncols + pad_right) v))"

text \<open>
  Modelled from the spec: the default fill value of \<open>F.pad\<close>.  The call in
  \<open>init_attention_inputs\<close> names no fill value, so the default applies, which is 0: the
  specification describes the result as a 0/1 mask used to zero out the contributions that
  involve the class token, and the attention multiplies the mask into the positional and
  token-type scores (\<open>positional_attn *= cls_mask\<close>).
\<close>

definition F_pad_default_value :: real where
  "F_pad_default_value = 0"

text \<open>\<open>tensor.new_ones([nrows, ncols])\<close>: a matrix of ones.\<close>

definition new_ones :: "nat \<Rightarrow> nat \<Rightarrow> real list list" where
  "new_ones nrows ncols = replicate nrows (replicate ncols 1)"

text \<open>
  The mutable attributes of a \<open>FunnelAttentionStructure\<close>; \<open>pooling_mult\<close> is \<open>None\<close>
  after construction.
\<close>

record attention_structure =
  pooling_mult :: "nat option"
  seq_len :: "nat option"

text \<open>The tuple \<open>(position_embeds, token_type_mat, attention_mask, cls_mask)\<close>.\<close>

record attention_inputs =
  position_embeds :: "tensor2 list"
  token_type_mat :: "bool list list list option"
  attention_mask :: "tensor2 option"
  cls_mask :: "tensor2 option"

text \<open>
  The class-token mask of \<open>init_attention_inputs\<close> for a sequence length;
  \<open>new_ones([seq_len - 1, seq_len - 1])\<close> raises a \<open>ValueError\<close> for \<open>seq_len = 0\<close>.
\<close>

definition init_cls_mask :: "config \<Rightarrow> nat \<Rightarrow> error + tensor2 option" where
  "init_cls_mask cfg n =
     (if separate_cls cfg then
        (if n = 0 then Inl (ValueError ''negative dimension'')
         else Inr (Some (F_pad (new_ones (n - 1) (n - 1)) (n - 1) (1, 0, 1, 0) F_pad_default_value)))
      else Inr None)"

text \<open>
  \<open>get_position_embeds\<close> computes sines and cosines in floating point and applies dropout;
  it is a parameter \<open>gpe\<close> of the model, from the sequence length to the tuple of
  position-embedding matrices.  The function returns its result together with the new
  state of the attention structure, which is changed before anything can fail.
\<close>

definition init_attention_inputs ::
  "config \<Rightarrow> (nat \<Rightarrow> tensor2 list) \<Rightarrow> attention_structure \<Rightarrow> tensor3 \<Rightarrow> tensor2 option \<Rightarrow>
   int list list option \<Rightarrow> (error + attention_inputs) \<times> attention_structure" where
  "init_attention_inputs cfg gpe self inputs_embeds am token_type_ids =
     (let n = shape1 inputs_embeds;
          self' = self\<lparr>pooling_mult := Some 1, seq_len := Some n\<rparr>;
          pe = gpe n;
          ttm = map_option token_type_ids_to_mat token_type_ids
      in case init_cls_mask cfg n of
           Inl e \<Rightarrow> (Inl e, self')
         | Inr cm \<Rightarrow>
             (Inr \<lparr>position_embeds = pe, token_type_mat = ttm,
                   attention_mask = am, cls_mask = cm\<rparr>, self'))"

subsection \<open>\<open>pre_attention_pooling\<close> and \<open>post_attention_pooling\<close>\<close>

text \<open>\<open>self.pooling_mult *= 2\<close>; it fails on \<open>None\<close>.\<close>

definition double_pooling_mult :: "attention_structure \<Rightarrow> error + attention_structure" where
  "double_pooling_mult self =
     (case pooling_mult self of
        None \<Rightarrow> Inl TypeError
      | Some k \<Rightarrow> Inr (self\<lparr>pooling_mult := Some (k * 2)\<rparr>))"

text \<open>\<open>self.pool_tensor(attention_mask, mode="min")\<close> and \<open>self.pool_tensor(output, mode=self.config.pooling_type)\<close>.\<close>

definition pool_mask :: "config \<Rightarrow> tensor2 option \<Rightarrow> error + tensor2 option" where
  "pool_mask cfg am =
     (case pool_tensor cfg recursion_limit (case am of None \<Rightarrow> PNone | Some t \<Rightarrow> Tensor2 t) ''min'' 2 of
        Inl e \<Rightarrow> Inl e
      | Inr (Tensor2 t) \<Rightarrow> Inr (Some t)
      | Inr _ \<Rightarrow> Inr None)"

definition pool_hidden :: "config \<Rightarrow> tensor3 \<Rightarrow> error + tensor3" where
  "pool_hidden cfg output =
     (case pool_tensor cfg recursion_limit (Tensor3 output) (pooling_type cfg) 2 of
        Inl e \<Rightarrow> Inl e
      | Inr (Tensor3 t) \<Rightarrow> Inr t
      | Inr _ \<Rightarrow> Inl TypeError)"

text \<open>
  The position embeddings are pooled only for the factorized attention.  The token-type
  matrix has shape \<open>[B, T, T]\<close>, the class-token mask \<open>[T, T]\<close>: for the mask the axes
  \<open>[1, 2]\<close> are taken modulo its rank, which makes them 1 and 0.
\<close>

definition pre_attention_pooling ::
  "config \<Rightarrow> attention_structure \<Rightarrow> tensor3 \<Rightarrow> attention_inputs \<Rightarrow>
   (error + tensor3 \<times> attention_inputs) \<times> attention_structure" where
  "pre_attention_pooling cfg self output ai =
     (if pool_q_only cfg then
        (let pe = (if attention_type cfg = ''factorized''
                   then map (stride_pool_0 cfg) (take 2 (position_embeds ai)) @ drop 2 (position_embeds ai)
                   else position_embeds ai);
             ttm = map_option (stride_pool_1 cfg) (token_type_mat ai);
             cm = map_option (stride_pool_0 cfg) (cls_mask ai)
         in case pool_hidden cfg output of
              Inl e \<Rightarrow> (Inl e, self)
            | Inr out \<Rightarrow>
                (Inr (out, \<lparr>position_embeds = pe, token_type_mat = ttm,
                            attention_mask = attention_mask ai, cls_mask = cm\<rparr>), self))
      else
        (case double_pooling_mult self of
           Inl e \<Rightarrow> (Inl e, self)
         | Inr self' \<Rightarrow>
             (let pe = (if attention_type cfg = ''factorized''
                        then map (stride_pool_0 cfg) (position_embeds ai)
                        else position_embeds ai);
                  ttm = map_option (\<lambda>t. stride_pool_2 cfg (stride_pool_1 cfg t)) (token_type_mat ai);
                  cm = map_option (\<lambda>t. stride_pool_0 cfg (stride_pool_1 cfg t)) (cls_mask ai)
              in case pool_mask cfg (attention_mask ai) of
                   Inl e \<Rightarrow> (Inl e, self')
                 | Inr am \<Rightarrow>
                     (case pool_hidden cfg output of
                        Inl e \<Rightarrow> (Inl e, self')
                      | Inr out \<Rightarrow>
                          (Inr (out, \<lparr>position_embeds = pe, token_type_mat = ttm,
                                      attention_mask = am, cls_mask = cm\<rparr>), self')))))"

definition post_attention_pooling ::
  "config \<Rightarrow> attention_structure \<Rightarrow> attention_inputs \<Rightarrow>
   (error + attention_inputs) \<times> attention_structure" where
  "post_attention_pooling cfg self ai =
     (if pool_q_only cfg then
        (case double_pooling_mult self of
           Inl e \<Rightarrow> (Inl e, self)
         | Inr self' \<Rightarrow>
             (let pe = (if attention_type cfg = ''factorized''
                        then take 2 (position_embeds ai) @ map (stride_pool_0 cfg) (drop 2 (position_embeds ai))
                        else position_embeds ai);
                  ttm = map_option (stride_pool_2 cfg) (token_type_mat ai);
                  cm = map_option (stride_pool_1 cfg) (cls_mask ai)
              in case pool_mask cfg (attention_mask ai) of
                   Inl e \<Rightarrow> (Inl e, self')
                 | Inr am \<Rightarrow>
                     (Inr \<lparr>position_embeds = pe, token_type_mat = ttm,
                           attention_mask = am, cls_mask = cm\<rparr>, self')))
      else (Inr ai, self))"

subsection \<open>The layers\<close>

text \<open>
  The embedding table, the layer normalisation with dropout, the position embeddings and
  the attention and feed-forward layers compute in floating point; they are parameters of
  the model.  A layer takes query, key, value and the attention inputs and returns its
  output hidden state, or the exception that the tensor engine raises inside it (a
  \<open>ValueError\<close>, for instance, when the shape of the attention mask does not match the
  scores).  The attention probabilities it can return as well do not enter the hidden
  states and are left out.  The embedding lookup and the layer normalisation can raise as
  well (on an id outside the table, on vectors of another width).
\<close>

type_synonym layer_fn = "tensor3 \<Rightarrow> tensor3 \<Rightarrow> tensor3 \<Rightarrow> attention_inputs \<Rightarrow> error + tensor3"

record model_fns =
  word_embeddings :: "int list list \<Rightarrow> error + tensor3"
  embed_norm :: "tensor3 \<Rightarrow> error + tensor3"
  get_position_embeds :: "nat \<Rightarrow> tensor2 list"
  encoder_layer :: "nat \<Rightarrow> nat \<Rightarrow> layer_fn"
  decoder_layer :: "nat \<Rightarrow> layer_fn"

text \<open>\<open>FunnelEmbeddings.forward\<close>.\<close>

definition embeddings_forward ::
  "model_fns \<Rightarrow> int list list option \<Rightarrow> tensor3 option \<Rightarrow> error + tensor3" where
  "embeddings_forward fns input_ids inputs_embeds =
     (case inputs_embeds of
        Some e \<Rightarrow> embed_norm fns e
      | None \<Rightarrow>
          (case input_ids of
             None \<Rightarrow> Inl TypeError
           | Some ids \<Rightarrow>
               (case word_embeddings fns ids of
                  Inl e \<Rightarrow> Inl e
                | Inr e \<Rightarrow> embed_norm fns e)))"

subsection \<open>\<open>FunnelEncoder.forward\<close>\<close>

text \<open>
  One pass of the body of the two inner loops, for the layer at \<open>layer_index\<close> and the
  repetition \<open>repeat_index\<close>.  The loop state is the hidden state, the attention inputs and
  the hidden states collected so far.
\<close>

definition encoder_layer_step ::
  "config \<Rightarrow> model_fns \<Rightarrow> bool \<Rightarrow> nat \<Rightarrow> bool \<Rightarrow> tensor3 \<Rightarrow> nat \<times> nat \<Rightarrow>
   tensor3 \<times> attention_inputs \<times> tensor3 list \<Rightarrow> attention_structure \<Rightarrow>
   (error + tensor3 \<times> attention_inputs \<times> tensor3 list) \<times> attention_structure" where
  "encoder_layer_step cfg fns output_hidden_states block_index pooling_flag pooled_hidden ix s self =
     (case ix of (layer_index, repeat_index) \<Rightarrow>
      case s of (hidden, ai, hs) \<Rightarrow>
       (let do_pooling = (repeat_index = 0 \<and> layer_index = 0 \<and> pooling_flag);
            query = (if do_pooling then pooled_hidden else hidden);
            key = (if do_pooling then (if pool_q_only cfg then hidden else pooled_hidden) else hidden)
        in case encoder_layer fns block_index layer_index query key key ai of
             Inl e \<Rightarrow> (Inl e, self)
           | Inr hidden' \<Rightarrow>
               (let hs' = (if output_hidden_states then hs @ [hidden'] else hs)
                in if do_pooling then
                     (case post_attention_pooling cfg self ai of
                        (Inl e, self') \<Rightarrow> (Inl e, self')
                      | (Inr ai', self') \<Rightarrow> (Inr (hidden', ai', hs'), self'))
                   else (Inr (hidden', ai, hs'), self))))"

fun encoder_layers ::
  "config \<Rightarrow> model_fns \<Rightarrow> bool \<Rightarrow> nat \<Rightarrow> bool \<Rightarrow> tensor3 \<Rightarrow> (nat \<times> nat) list \<Rightarrow>
   tensor3 \<times> attention_inputs \<times> tensor3 list \<Rightarrow> attention_structure \<Rightarrow>
   (error + tensor3 \<times> attention_inputs \<times> tensor3 list) \<times> attention_structure" where
  "encoder_layers cfg fns ohs block_index pooling_flag pooled_hidden [] s self = (Inr s, self)"
| "encoder_layers cfg fns ohs block_index pooling_flag pooled_hidden (ix # ixs) s self =
     (case encoder_layer_step cfg fns ohs block_index pooling_flag pooled_hidden ix s self of
        (Inl e, self') \<Rightarrow> (Inl e, self')
      | (Inr s', self') \<Rightarrow>
          encoder_layers cfg fns ohs block_index pooling_flag pooled_hidden ixs s' self')"

text \<open>
  One pass of the loop over the blocks.  The block at \<open>block_index\<close> has \<open>block_size\<close>
  layers, each run \<open>block_repeats[block_index]\<close> times; that entry is read once per layer.
\<close>

definition encoder_block ::
  "config \<Rightarrow> model_fns \<Rightarrow> bool \<Rightarrow> nat \<times> nat \<Rightarrow>
   tensor3 \<times> attention_inputs \<times> tensor3 list \<Rightarrow> attention_structure \<Rightarrow>
   (error + tensor3 \<times> attention_inputs \<times> tensor3 list) \<times> attention_structure" where
  "encoder_block cfg fns ohs blk s self =
     (case blk of (block_index, block_size) \<Rightarrow>
      case s of (hidden, ai, hs) \<Rightarrow>
       (let pooling_flag = ((if separate_cls cfg then 2 else 1) < shape1 hidden \<and> 0 < block_index)
        in case (if pooling_flag then pre_attention_pooling cfg self hidden ai
                 else (Inr (hidden, ai), self)) of
             (Inl e, self') \<Rightarrow> (Inl e, self')
           | (Inr (pooled_hidden, ai'), self') \<Rightarrow>
               if 0 < block_size \<and> \<not> block_index < length (block_repeats cfg)
               then (Inl IndexError, self')
               else encoder_layers cfg fns ohs block_index pooling_flag pooled_hidden
                      (List.product [0..<block_size] [0..<block_repeats cfg ! block_index])
                      (hidden, ai', hs) self'))"

fun encoder_blocks ::
  "config \<Rightarrow> model_fns \<Rightarrow> bool \<Rightarrow> (nat \<times> nat) list \<Rightarrow>
   tensor3 \<times> attention_inputs \<times> tensor3 list \<Rightarrow> attention_structure \<Rightarrow>
   (error + tensor3 \<times> attention_inputs \<times> tensor3 list) \<times> attention_structure" where
  "encoder_blocks cfg fns ohs [] s self = (Inr s, self)"
| "encoder_blocks cfg fns ohs (blk # blks) s self =
     (case encoder_block cfg fns ohs blk s self of
        (Inl e, self') \<Rightarrow> (Inl e, self')
      | (Inr s', self') \<Rightarrow> encoder_blocks cfg fns ohs blks s' self')"

text \<open>
  \<open>FunnelEncoder.forward\<close> returns the last hidden state and, when asked for, all hidden
  states.  \<open>attention_mask.type_as(inputs_embeds)\<close> changes the element type only.
\<close>

definition encoder_forward ::
  "config \<Rightarrow> model_fns \<Rightarrow> attention_structure \<Rightarrow> tensor3 \<Rightarrow> tensor2 \<Rightarrow> int list list option \<Rightarrow> bool \<Rightarrow>
   (error + tensor3 \<times> tensor3 list option) \<times> attention_structure" where
  "encoder_forward cfg fns self inputs_embeds am token_type_ids output_hidden_states =
     (case init_attention_inputs cfg (get_position_embeds fns) self inputs_embeds (Some am) token_type_ids of
        (Inl e, self') \<Rightarrow> (Inl e, self')
      | (Inr ai, self') \<Rightarrow>
          (case encoder_blocks cfg fns output_hidden_states (enumerate 0 (block_sizes cfg))
                  (inputs_embeds, ai, if output_hidden_states then [inputs_embeds] else []) self' of
             (Inl e, self'') \<Rightarrow> (Inl e, self'')
           | (Inr (hidden, ai', hs), self'') \<Rightarrow>
               (Inr (hidden, if output_hidden_states then Some hs else None), self'')))"

subsection \<open>\<open>FunnelDecoder.forward\<close>\<close>

text \<open>
  Modelled from the spec: the addition of two tensors (the tensor engine's \<open>+\<close>, not among
  the source files), element by element, where an axis of length 1 is broadcast against
  the other operand's axis and any other mismatch of lengths is an error.
\<close>

definition broadcast2 ::
  "('a \<Rightarrow> 'b \<Rightarrow> error + 'c) \<Rightarrow> 'a list \<Rightarrow> 'b list \<Rightarrow> error + 'c list" where
  "broadcast2 f xs ys =
     (if length xs = length ys then sequence_sum (map2 f xs ys)
      else if length xs = 1 then sequence_sum (map (f (hd xs)) ys)
      else if length ys = 1 then sequence_sum (map (\<lambda>x. f x (hd ys)) xs)
      else Inl (RuntimeError ''operands could not be broadcast together''))"

definition tensor_add :: "tensor3 \<Rightarrow> tensor3 \<Rightarrow> error + tensor3" where
  "tensor_add x y = broadcast2 (broadcast2 (broadcast2 (\<lambda>a b. Inr (a + b)))) x y"

text \<open>
  The stride of the upsampling, \<open>2 ** (len(self.config.block_sizes) - 1)\<close>; for an empty
  list of blocks the exponent is negative and the power is no integer.
\<close>

definition decoder_stride :: "config \<Rightarrow> nat" where
  "decoder_stride cfg = 2 ^ (length (block_sizes cfg) - 1)"

fun decoder_layers ::
  "model_fns \<Rightarrow> bool \<Rightarrow> attention_inputs \<Rightarrow> nat list \<Rightarrow> tensor3 \<times> tensor3 list \<Rightarrow>
   error + tensor3 \<times> tensor3 list" where
  "decoder_layers fns ohs ai [] s = Inr s"
| "decoder_layers fns ohs ai (l # ls) s =
     (case s of (hidden, hs) \<Rightarrow>
        (case decoder_layer fns l hidden hidden hidden ai of
           Inl e \<Rightarrow> Inl e
         | Inr hidden' \<Rightarrow>
             decoder_layers fns ohs ai ls (hidden', if ohs then hs @ [hidden'] else hs)))"

text \<open>The part of \<open>FunnelDecoder.forward\<close> that follows the upsampling.\<close>

definition decoder_after_upsample ::
  "config \<Rightarrow> model_fns \<Rightarrow> attention_structure \<Rightarrow> tensor3 \<Rightarrow> tensor3 \<Rightarrow> tensor2 option \<Rightarrow>
   int list list option \<Rightarrow> bool \<Rightarrow> (error + tensor3 \<times> tensor3 list option) \<times> attention_structure" where
  "decoder_after_upsample cfg fns self upsampled_hidden first_block_hidden am token_type_ids
       output_hidden_states =
     (case tensor_add upsampled_hidden first_block_hidden of
        Inl e \<Rightarrow> (Inl e, self)
      | Inr hidden \<Rightarrow>
          (case init_attention_inputs cfg (get_position_embeds fns) self hidden am token_type_ids of
             (Inl e, self') \<Rightarrow> (Inl e, self')
           | (Inr ai, self') \<Rightarrow>
               (case decoder_layers fns output_hidden_states ai [0..<num_decoder_layers cfg]
                       (hidden, if output_hidden_states then [hidden] else []) of
                  Inl e \<Rightarrow> (Inl e, self')
                | Inr (hidden', hs) \<Rightarrow>
                    (Inr (hidden', if output_hidden_states then Some hs else None), self'))))"

definition decoder_forward ::
  "config \<Rightarrow> model_fns \<Rightarrow> attention_structure \<Rightarrow> tensor3 \<Rightarrow> tensor3 \<Rightarrow> tensor2 option \<Rightarrow>
   int list list option \<Rightarrow> bool \<Rightarrow> (error + tensor3 \<times> tensor3 list option) \<times> attention_structure" where
  "decoder_forward cfg fns self final_hidden first_block_hidden am token_type_ids output_hidden_states =
     (if block_sizes cfg = [] then (Inl TypeError, self)
      else
        (case upsample final_hidden (decoder_stride cfg) (int (shape1 first_block_hidden))
                (separate_cls cfg) (truncate_seq cfg) of
           Inl e \<Rightarrow> (Inl e, self)
         | Inr upsampled_hidden \<Rightarrow>
             decoder_after_upsample cfg fns self upsampled_hidden first_block_hidden am token_type_ids
               output_hidden_states))"

subsection \<open>\<open>FunnelModel.forward\<close> and \<open>FunnelBaseModel.forward\<close>\<close>

text \<open>
  The state of a model is the state of the attention structures of its encoder and its
  decoder (the base model has no decoder and leaves that part alone).  The output is the
  last hidden state and, when asked for, all hidden states.  The flags
  \<open>output_hidden_states\<close> is taken after its default has been filled in from the
  configuration.  The warning about padding without an attention mask only logs.
\<close>

record model_state =
  encoder_structure :: attention_structure
  decoder_structure :: attention_structure

record base_model_output =
  last_hidden_state :: tensor3
  hidden_states :: "tensor3 list option"

definition both_inputs_error :: error where
  "both_inputs_error = ValueError ''You cannot specify both input_ids and inputs_embeds at the same time''"

definition no_input_error :: error where
  "no_input_error = ValueError ''You have to specify either input_ids or inputs_embeds''"

text \<open>\<open>input_shape\<close>: the shape of \<open>input_ids\<close>, or of \<open>inputs_embeds\<close> without its last axis.\<close>

definition input_shape_of :: "int list list option \<Rightarrow> tensor3 option \<Rightarrow> nat \<times> nat" where
  "input_shape_of input_ids inputs_embeds =
     (case input_ids of
        Some ids \<Rightarrow> (length ids, shape1 ids)
      | None \<Rightarrow> (case inputs_embeds of Some e \<Rightarrow> (length e, shape1 e) | None \<Rightarrow> (0, 0)))"

definition FunnelBaseModel_forward ::
  "config \<Rightarrow> model_fns \<Rightarrow> model_state \<Rightarrow> int list list option \<Rightarrow> tensor2 option \<Rightarrow>
   int list list option \<Rightarrow> tensor3 option \<Rightarrow> bool \<Rightarrow> (error + base_model_output) \<times> model_state" where
  "FunnelBaseModel_forward cfg fns st input_ids am token_type_ids inputs_embeds output_hidden_states =
     (if input_ids \<noteq> None \<and> inputs_embeds \<noteq> None then (Inl both_inputs_error, st)
      else if input_ids = None \<and> inputs_embeds = None then (Inl no_input_error, st)
      else
        (case input_shape_of input_ids inputs_embeds of (batch, len) \<Rightarrow>
          (let am' = (case am of None \<Rightarrow> replicate batch (replicate len 1) | Some a \<Rightarrow> a);
               tti = (case token_type_ids of None \<Rightarrow> replicate batch (replicate len 0) | Some t \<Rightarrow> t)
           in case embeddings_forward fns input_ids inputs_embeds of
                Inl e \<Rightarrow> (Inl e, st)
              | Inr emb \<Rightarrow>
                  (case encoder_forward cfg fns (encoder_structure st) emb am' (Some tti)
                          output_hidden_states of
                     (Inl e, enc) \<Rightarrow> (Inl e, st\<lparr>encoder_structure := enc\<rparr>)
                   | (Inr (hidden, hs), enc) \<Rightarrow>
                       (Inr \<lparr>last_hidden_state = hidden, hidden_states = hs\<rparr>,
                        st\<lparr>encoder_structure := enc\<rparr>)))))"

definition FunnelModel_forward ::
  "config \<Rightarrow> model_fns \<Rightarrow> model_state \<Rightarrow> int list list option \<Rightarrow> tensor2 option \<Rightarrow>
   int list list option \<Rightarrow> tensor3 option \<Rightarrow> bool \<Rightarrow> (error + base_model_output) \<times> model_state" where
  "FunnelModel_forward cfg fns st input_ids am token_type_ids inputs_embeds output_hidden_states =
     (if input_ids \<noteq> None \<and> inputs_embeds \<noteq> None then (Inl both_inputs_error, st)
      else if input_ids = None \<and> inputs_embeds = None then (Inl no_input_error, st)
      else
        (case input_shape_of input_ids inputs_embeds of (batch, len) \<Rightarrow>
          (let am' = (case am of None \<Rightarrow> replicate batch (replicate len 1) | Some a \<Rightarrow> a);
               tti = (case token_type_ids of None \<Rightarrow> replicate batch (replicate len 0) | Some t \<Rightarrow> t)
           in case embeddings_forward fns input_ids inputs_embeds of
                Inl e \<Rightarrow> (Inl e, st)
              | Inr emb \<Rightarrow>
                  (case encoder_forward cfg fns (encoder_structure st) emb am' (Some tti) True of
                     (Inl e, enc) \<Rightarrow> (Inl e, st\<lparr>encoder_structure := enc\<rparr>)
                   | (Inr (final_hidden, None), enc) \<Rightarrow>
                       (Inl TypeError, st\<lparr>encoder_structure := enc\<rparr>)
                   | (Inr (final_hidden, Some enc_hs), enc) \<Rightarrow>
                       (case block_sizes cfg of
                          [] \<Rightarrow> (Inl IndexError, st\<lparr>encoder_structure := enc\<rparr>)
                        | size0 # _ \<Rightarrow>
                            if \<not> size0 < length enc_hs
                            then (Inl IndexError, st\<lparr>encoder_structure := enc\<rparr>)
                            else
                              (case decoder_forward cfg fns (decoder_structure st) final_hidden
                                      (enc_hs ! size0) (Some am') (Some tti)
                                      output_hidden_states of
                                 (Inl e, dec) \<Rightarrow>
                                   (Inl e, st\<lparr>encoder_structure := enc, decoder_structure := dec\<rparr>)
                               | (Inr (hidden, dec_hs), dec) \<Rightarrow>
                                   (Inr \<lparr>last_hidden_state = hidden,
                                         hidden_states =
                                           (if output_hidden_states
                                            then map_option (\<lambda>hs. enc_hs @ hs) dec_hs
                                            else None)\<rparr>,
                                    st\<lparr>encoder_structure := enc, decoder_structure := dec\<rparr>)))))))"

text \<open>Whether an exception is a \<open>ValueError\<close>.\<close>

definition is_value_error :: "error \<Rightarrow> bool" where
  "is_value_error e = (case e of ValueError _ \<Rightarrow> True | _ \<Rightarrow> False)"

text \<open>
  The two usage errors of the forward passes, and the condition that neither the
  embeddings nor a layer raise an exception with the message of one of them (the messages
  occur in the forward passes only).
\<close>

definition is_usage_error :: "error \<Rightarrow> bool" where
  "is_usage_error e \<longleftrightarrow> e = both_inputs_error \<or> e = no_input_error"

definition layers_raise_no_usage_error :: "model_fns \<Rightarrow> bool" where
  "layers_raise_no_usage_error fns \<longleftrightarrow>
     (\<forall>ids e. word_embeddings fns ids = Inl e \<longrightarrow> \<not> is_usage_error e)
     \<and> (\<forall>x e. embed_norm fns x = Inl e \<longrightarrow> \<not> is_usage_error e)
     \<and> (\<forall>block_index layer_index query key v ai e.
        encoder_layer fns block_index layer_index query key v ai = Inl e \<longrightarrow> \<not> is_usage_error e)
     \<and> (\<forall>layer_index query key v ai e.
        decoder_layer fns layer_index query key v ai = Inl e \<longrightarrow> \<not> is_usage_error e)"

subsection \<open>Shapes\<close>

definition has_shape2 :: "'a list list \<Rightarrow> nat \<Rightarrow> nat \<Rightarrow> bool" where
  "has_shape2 t d0 d1 \<longleftrightarrow> length t = d0 \<and> (\<forall>row \<in> set t. length row = d1)"

definition has_shape3 :: "'a list list list \<Rightarrow> nat \<Rightarrow> nat \<Rightarrow> nat \<Rightarrow> bool" where
  "has_shape3 t d0 d1 d2 \<longleftrightarrow>
     length t = d0 \<and> (\<forall>m \<in> set t. length m = d1 \<and> (\<forall>v \<in> set m. length v = d2))"

text \<open>
  The layers succeed and return a tensor of the shape of their query: the attention ends
  in \<open>layer_norm(query + attn_out)\<close> and the feed-forward part in
  \<open>layer_norm(hidden + h)\<close>.
\<close>

definition layers_keep_shape :: "model_fns \<Rightarrow> bool" where
  "layers_keep_shape fns \<longleftrightarrow>
     (\<forall>block_index layer_index query key v ai d0 d1 d2.
        has_shape3 query d0 d1 d2 \<longrightarrow>
        (\<exists>out. encoder_layer fns block_index layer_index query key v ai = Inr out
               \<and> has_shape3 out d0 d1 d2))
     \<and> (\<forall>layer_index query key v ai d0 d1 d2.
        has_shape3 query d0 d1 d2 \<longrightarrow>
        (\<exists>out. decoder_layer fns layer_index query key v ai = Inr out
               \<and> has_shape3 out d0 d1 d2))"

text \<open>
  The embedding table maps ids of shape \<open>[B, T]\<close> to vectors of a fixed width, shape
  \<open>[B, T, H]\<close>; layer normalisation and dropout succeed and keep the shape.
\<close>

definition embeddings_keep_shape :: "model_fns \<Rightarrow> nat \<Rightarrow> bool" where
  "embeddings_keep_shape fns width \<longleftrightarrow>
     (\<forall>ids d0 d1. has_shape2 ids d0 d1 \<longrightarrow>
        (\<exists>out. word_embeddings fns ids = Inr out \<and> has_shape3 out d0 d1 width))
     \<and> (\<forall>x d0 d1 d2. has_shape3 x d0 d1 d2 \<longrightarrow>
        (\<exists>out. embed_norm fns x = Inr out \<and> has_shape3 out d0 d1 d2))"

text \<open>The modes that \<open>pool_tensor\<close> supports.\<close>

definition supported_mode :: "string \<Rightarrow> bool" where
  "supported_mode mode \<longleftrightarrow> mode = ''mean'' \<or> mode = ''max'' \<or> mode = ''min''"

text \<open>
  The sequence length that \<open>pool_tensor\<close> with stride 2 produces from sequence length
  \<open>n\<close>: the length after the class token has been put in front (of all but the last
  entry under \<open>truncate_seq\<close>), halved with ceiling rounding.
\<close>

definition pooled_len :: "config \<Rightarrow> nat \<Rightarrow> nat" where
  "pooled_len cfg n =
     ((if separate_cls cfg
       then min 1 n + (if truncate_seq cfg then n - 1 else n)
       else n) + 1) div 2"

text \<open>The length above which the encoder pools: \<open>2 if separate_cls else 1\<close>.\<close>

definition pool_threshold :: "config \<Rightarrow> nat" where
  "pool_threshold cfg = (if separate_cls cfg then 2 else 1)"

text \<open>An attention mask, when there is one, has no empty row.\<close>

definition mask_rows_nonempty :: "tensor2 option \<Rightarrow> bool" where
  "mask_rows_nonempty am \<longleftrightarrow> (case am of None \<Rightarrow> True | Some a \<Rightarrow> list_all (\<lambda>row. row \<noteq> []) a)"

subsection \<open>Concrete inputs of the examples\<close>

definition cfg_cls :: config where
  "cfg_cls = \<lparr>separate_cls = True, truncate_seq = False, pool_q_only = True,
     pooling_type = ''mean'', attention_type = ''factorized'', block_sizes = [2, 2],
     block_repeats = [1, 1], num_decoder_layers = 2\<rparr>"

definition no_position_embeds :: "nat \<Rightarrow> tensor2 list" where
  "no_position_embeds n = []"

definition fresh_structure :: attention_structure where
  "fresh_structure = \<lparr>pooling_mult = None, seq_len = None\<rparr>"

definition fresh_model :: model_state where
  "fresh_model = \<lparr>encoder_structure = fresh_structure, decoder_structure = fresh_structure\<rparr>"

text \<open>Layers that return their query, and an embedding of each token id as a vector of length 1.\<close>

definition id_fns :: model_fns where
  "id_fns = \<lparr>word_embeddings = (\<lambda>ids. Inr (map (map (\<lambda>i. [real_of_int i])) ids)),
             embed_norm = (\<lambda>x. Inr x),
             get_position_embeds = no_position_embeds,
             encoder_layer = (\<lambda>block_index layer_index query key v ai. Inr query),
             decoder_layer = (\<lambda>layer_index query key v ai. Inr query)\<rparr>"

section \<open>Properties\<close>

subsection \<open>\<open>upsample\<close> with stride 1\<close>

text \<open>
  C10: for every tensor \<open>x\<close>, every \<open>target_len\<close> and every combination of the two
  flags, \<open>upsample\<close> with stride 1 returns \<open>x\<close> itself, whatever its sequence length:
  nothing is repeated, padded or truncated.
\<close>

theorem upsample_stride_one_identity:
  "upsample x 1 target_len sep_cls trunc_seq = Inr x"
  by (simp add: upsample_def)

subsection \<open>\<open>relative_pos\<close>\<close>

lemma arange_from_desc:
  "step < 0 \<Longrightarrow> arange_from cur stop step =
     map (\<lambda>k. cur + int k * step) [0..<nat ((cur - stop + (- step) - 1) div (- step))]"
proof (induction cur stop step rule: arange_from.induct)
  case (1 cur stop step)
  show ?case
  proof (cases "stop < cur")
    case True
    let ?s = "- step"
    have s: "0 < ?s" using 1(3) by simp
    have IH: "arange_from (cur + step) stop step =
      map (\<lambda>k. cur + step + int k * step) [0..<nat ((cur + step - stop + ?s - 1) div ?s)]"
      using 1(2)[OF _ _ 1(3)] 1(3) True by simp
    have "(cur - stop + ?s - 1) div ?s = (cur + step - stop + ?s - 1) div ?s + 1"
    proof -
      have "cur - stop + ?s - 1 = (cur + step - stop + ?s - 1) + 1 * ?s" by simp
      then show ?thesis using s
        by (metis div_add_self2 less_irrefl mult_1)
    qed
    moreover have "0 \<le> (cur + step - stop + ?s - 1) div ?s"
      using True s by (simp add: pos_imp_zdiv_nonneg_iff)
    ultimately have n: "nat ((cur - stop + ?s - 1) div ?s) = Suc (nat ((cur + step - stop + ?s - 1) div ?s))"
      by simp
    have "arange_from cur stop step = cur # arange_from (cur + step) stop step"
      using True 1(3) by (subst arange_from.simps) simp
    also have "\<dots> = map (\<lambda>k. cur + int k * step) [0..<Suc (nat ((cur + step - stop + ?s - 1) div ?s))]"
      unfolding IH by (simp add: upt_conv_Cons map_Suc_upt[symmetric] algebra_simps del: upt_Suc)
    finally show ?thesis using n by simp
  next
    case False
    have "(cur - stop + (- step) - 1) div (- step) \<le> (- step - 1) div (- step)"
      using False 1(3) by (intro zdiv_mono1) simp_all
    also have "\<dots> = 0" using 1(3) by (simp add: div_pos_pos_trivial)
    finally have "(cur - stop + (- step) - 1) div (- step) \<le> 0" .
    then show ?thesis using False 1(3) by (subst arange_from.simps) simp
  qed
qed

lemma ceil_div_shift:
  fixes a b s :: int
  assumes "0 < s"
  shows "(a - (b - 1) + s - 1) div s = (a - b) div s + 1"
proof -
  have "a - (b - 1) + s - 1 = (a - b) + s" by simp
  then have "(a - (b - 1) + s - 1) div s = ((a - b) + s) div s" by (rule arg_cong)
  also have "\<dots> = (a - b) div s + 1" using assms by (subst div_add_self2) simp_all
  finally show ?thesis .
qed

lemma arange_from_down:
  assumes "0 < s"
  shows "arange_from a (b - 1) (- s) = map (\<lambda>k. a - int k * s) [0..<nat ((a - b) div s + 1)]"
proof -
  have "arange_from a (b - 1) (- s) =
      map (\<lambda>k. a + int k * (- s)) [0..<nat ((a - (b - 1) + (- (- s)) - 1) div (- (- s)))]"
    using assms by (intro arange_from_desc) simp
  also have "(a - (b - 1) + (- (- s)) - 1) div (- (- s)) = (a - (b - 1) + s - 1) div s" by simp
  also have "\<dots> = (a - b) div s + 1" using assms by (rule ceil_div_shift)
  finally show ?thesis by simp
qed

lemma wrap_int64_id: "fits_int64 x \<Longrightarrow> wrap_int64 x = x"
  by (simp add: fits_int64_def wrap_int64_def)

lemma relative_pos_closed:
  assumes "pos \<noteq> []" "pooled_pos \<noteq> []" "1 \<le> stride"
    and "distances_fit_int64 pos stride pooled_pos shift"
    and "fits_int64 (rel_min_dist pos pooled_pos)" and "fits_int64 (- stride)"
  shows "relative_pos pos stride (Some pooled_pos) shift =
     Inr (map (\<lambda>k. rel_max_dist pos stride pooled_pos shift - int k * stride)
       [0..<nat ((rel_max_dist pos stride pooled_pos shift - rel_min_dist pos pooled_pos) div stride + 1)])"
proof -
  have s: "0 < stride" "stride \<noteq> 0" using assms(3) by simp_all
  have e: "shift * int (length pooled_pos) * stride = stride * shift * int (length pooled_pos)"
    by (simp add: algebra_simps)
  have f: "fits_int64 (hd pooled_pos - hd pos)"
    "fits_int64 (shift * int (length pooled_pos) * stride)"
    "fits_int64 (rel_max_dist pos stride pooled_pos shift)"
    "fits_int64 (rel_min_dist pos pooled_pos - 1)"
    unfolding e using assms(4) by (simp_all add: distances_fit_int64_def)
  have m: "hd pooled_pos - hd pos + shift * int (length pooled_pos) * stride
      = rel_max_dist pos stride pooled_pos shift"
    by (simp add: rel_max_dist_def algebra_simps)
  have w1: "wrap_int64 (hd pooled_pos - hd pos) = hd pooled_pos - hd pos"
    by (rule wrap_int64_id[OF f(1)])
  have w2: "wrap_int64 (hd pooled_pos - hd pos + shift * int (length pooled_pos) * stride)
      = rel_max_dist pos stride pooled_pos shift"
    unfolding m by (rule wrap_int64_id[OF f(3)])
  have w3: "wrap_int64 (hd pooled_pos - last pos) = rel_min_dist pos pooled_pos"
    using wrap_int64_id[OF assms(5)] by (simp add: rel_min_dist_def)
  have "relative_pos pos stride (Some pooled_pos) shift =
      arange (rel_max_dist pos stride pooled_pos shift) (rel_min_dist pos pooled_pos - 1) (- stride)"
    using assms(1,2) f(2) by (simp add: relative_pos_def Let_def w1 w2 w3)
  also have "\<dots> = Inr (arange_from (rel_max_dist pos stride pooled_pos shift)
      (rel_min_dist pos pooled_pos - 1) (- stride))"
    using s(2) f(3,4) assms(6) by (simp add: arange_def)
  finally show ?thesis by (simp only: arange_from_down[OF s(1)])
qed

lemma sorted_wrt_hd_le_last:
  "sorted_wrt (<) (xs :: int list) \<Longrightarrow> xs \<noteq> [] \<Longrightarrow> hd xs \<le> last xs"
  by (cases xs) (auto simp: last_conv_nth nth_Cons' dest!: order.strict_implies_order)

text \<open>
  C2 (as amended): for a non-empty strictly increasing position vector \<open>pos\<close>, a non-empty
  \<open>pooled_pos\<close> (which defaults to \<open>pos\<close>), \<open>stride \<ge> 1\<close> and \<open>shift \<ge> 1\<close>, such that
  the reference point, the product \<open>stride * shift * len(pooled_pos)\<close>, the maximal
  distance and the minimal distance less one fit into 64 bits, \<open>relative_pos\<close> returns the
  descending arithmetic sequence with step \<open>-stride\<close> that starts at the maximal distance
  \<open>(pooled_pos[0] - pos[0]) + stride * shift * len(pooled_pos)\<close> and contains every term
  not below the minimal distance \<open>pooled_pos[0] - pos[-1]\<close> (its last term is less than
  one stride above the minimal distance).  The sequence has
  \<open>(max - min) div stride + 1\<close> elements, which is always more than \<open>len(pooled_pos)\<close>.
\<close>

theorem relative_pos_sequence:
  assumes "pos \<noteq> []" and "pooled_pos \<noteq> []" and "sorted_wrt (<) pos"
    and "1 \<le> stride" and "1 \<le> shift"
    and "distances_fit_int64 pos stride pooled_pos shift"
  shows "relative_pos pos stride None shift = relative_pos pos stride (Some pos) shift
    \<and> relative_pos pos stride (Some pooled_pos) shift =
       Inr (map (\<lambda>k. rel_max_dist pos stride pooled_pos shift - int k * stride)
         [0..<nat ((rel_max_dist pos stride pooled_pos shift - rel_min_dist pos pooled_pos) div stride + 1)])
    \<and> length pooled_pos <
       nat ((rel_max_dist pos stride pooled_pos shift - rel_min_dist pos pooled_pos) div stride + 1)
    \<and> (\<forall>k < nat ((rel_max_dist pos stride pooled_pos shift - rel_min_dist pos pooled_pos) div stride + 1).
       rel_min_dist pos pooled_pos \<le> rel_max_dist pos stride pooled_pos shift - int k * stride)
    \<and> rel_max_dist pos stride pooled_pos shift
        - ((rel_max_dist pos stride pooled_pos shift - rel_min_dist pos pooled_pos) div stride) * stride
        < rel_min_dist pos pooled_pos + stride"
proof -
  let ?mx = "rel_max_dist pos stride pooled_pos shift"
  let ?mn = "rel_min_dist pos pooled_pos"
  let ?d = "(?mx - ?mn) div stride"
  have s: "0 < stride" using assms(4) by simp
  have p1: "relative_pos pos stride None shift = relative_pos pos stride (Some pos) shift"
    by (simp add: relative_pos_def)
  have gap: "?mx - ?mn = (last pos - hd pos) + stride * (shift * int (length pooled_pos))"
    by (simp add: rel_max_dist_def rel_min_dist_def algebra_simps)
  have fit: "fits_int64 (stride * shift * int (length pooled_pos))" "fits_int64 ?mx"
    "fits_int64 (?mn - 1)"
    using assms(6) by (simp_all add: distances_fit_int64_def)
  have prod: "stride \<le> stride * shift * int (length pooled_pos)"
  proof -
    have "1 \<le> int (length pooled_pos)" using assms(2) by (cases pooled_pos) simp_all
    then have "1 * 1 \<le> shift * int (length pooled_pos)"
      using assms(5) by (intro mult_mono) simp_all
    then have "1 \<le> shift * int (length pooled_pos)" by simp
    then have "stride * 1 \<le> stride * (shift * int (length pooled_pos))"
      using s by (intro mult_left_mono) simp_all
    then show ?thesis by (simp add: mult.assoc)
  qed
  have "0 \<le> stride * (shift * int (length pooled_pos))" using prod s by (simp add: mult.assoc)
  then have "?mn \<le> ?mx" using gap sorted_wrt_hd_le_last[OF assms(3,1)] by linarith
  then have fmn: "fits_int64 ?mn" using fit(2,3) by (simp add: fits_int64_def)
  have "stride < 2 ^ 63" using prod fit(1) unfolding fits_int64_def by linarith
  then have fst: "fits_int64 (- stride)" using s by (simp add: fits_int64_def)
  have p2: "relative_pos pos stride (Some pooled_pos) shift =
       Inr (map (\<lambda>k. ?mx - int k * stride) [0..<nat (?d + 1)])"
    using assms(1,2,4,6) fmn fst by (rule relative_pos_closed)
  have "int (length pooled_pos) \<le> shift * int (length pooled_pos)"
    using assms(5) by (simp add: mult_le_cancel_right1)
  also have "\<dots> = (stride * (shift * int (length pooled_pos))) div stride"
    using s by simp
  also have "\<dots> \<le> ?d"
    unfolding gap using sorted_wrt_hd_le_last[OF assms(3,1)] s by (intro zdiv_mono1) simp_all
  finally have len: "int (length pooled_pos) \<le> ?d" .
  then have p3: "length pooled_pos < nat (?d + 1)" by linarith
  have dm: "?d * stride \<le> ?mx - ?mn" "?mx - ?mn < ?d * stride + stride"
    using s div_mult_mod_eq[of "?mx - ?mn" stride] pos_mod_bound[OF s, of "?mx - ?mn"]
      pos_mod_sign[OF s, of "?mx - ?mn"] by linarith+
  have p4: "\<forall>k < nat (?d + 1). ?mn \<le> ?mx - int k * stride"
  proof (intro allI impI)
    fix k assume "k < nat (?d + 1)"
    then have "int k \<le> ?d" by linarith
    then have "int k * stride \<le> ?d * stride" using s by (simp add: mult_right_mono)
    then show "?mn \<le> ?mx - int k * stride" using dm(1) by linarith
  qed
  have p5: "?mx - ?d * stride < ?mn + stride" using dm(2) by linarith
  from p1 p2 p3 p4 p5 show ?thesis by blast
qed

theorem relative_pos_sequence_witness:
  "sorted_wrt (<) [0, 1, 2, 3, 4 :: int]
   \<and> relative_pos [0, 1, 2, 3, 4] 1 (Some [- 1, 1, 3]) 2 =
       Inr [5, 4, 3, 2, 1, 0, - 1, - 2, - 3, - 4, - 5]
   \<and> length [- 1, 1, 3 :: int] < length [5, 4, 3, 2, 1, 0, - 1, - 2, - 3, - 4, - 5 :: int]"
  using relative_pos_sequence [of "[0, 1, 2, 3, 4]" "[- 1, 1, 3]" 1 2]
  by (simp add: rel_max_dist_def rel_min_dist_def distances_fit_int64_def fits_int64_def upt_rec)

text \<open>
  The claim as stated fails on the length: for \<open>pos = [0, 1, 2, 3]\<close>, stride 1 and shift 1
  the result has eight elements, not four.
\<close>

theorem relative_pos_length_counterexample:
  "relative_pos [0, 1, 2, 3] 1 None 1 = Inr [4, 3, 2, 1, 0, - 1, - 2, - 3]
   \<and> length [4, 3, 2, 1, 0, - 1, - 2, - 3 :: int] \<noteq> length [0, 1, 2, 3 :: int]"
  by (simp add: relative_pos_def arange_def fits_int64_def wrap_int64_def)

text \<open>Outside the 64-bit range the call raises: stride \<open>2^62\<close> with shift 2 on two positions.\<close>

lemma relative_pos_overflow_example:
  "relative_pos [0, 1] (2 ^ 62) None 2
     = Inl (RuntimeError ''value cannot be converted to int64 without overflow'')"
  by (simp add: relative_pos_def fits_int64_def wrap_int64_def)

subsection \<open>\<open>_relative_shift_gather\<close>\<close>

lemma idx_bound:
  fixes i j n m :: nat
  assumes "i < n" "j < m"
  shows "i * m + j < n * m"
proof -
  have "i * m + j < i * m + m" using assms(2) by simp
  also have "\<dots> = Suc i * m" by simp
  also have "\<dots> \<le> n * m" using assms(1) by (intro mult_le_mono1) simp
  finally show ?thesis .
qed

lemma length_concat_rect:
  "\<forall>x \<in> set xss. length x = n \<Longrightarrow> length (concat xss) = length xss * n"
  by (induction xss) simp_all

lemma concat_nth_rect:
  "\<forall>x \<in> set xss. length x = n \<Longrightarrow> i < length xss \<Longrightarrow> j < n \<Longrightarrow>
     concat xss ! (i * n + j) = xss ! i ! j"
proof (induction xss arbitrary: i)
  case Nil
  then show ?case by simp
next
  case (Cons xs xss)
  show ?case
  proof (cases i)
    case 0
    then show ?thesis using Cons.prems by (simp add: nth_append)
  next
    case (Suc k)
    then have "concat (xs # xss) ! (i * n + j) = concat xss ! (k * n + j)"
      using Cons.prems by (simp add: nth_append)
    then show ?thesis using Cons.IH[of k] Cons.prems Suc by simp
  qed
qed

lemma set_concat_rect:
  "\<forall>a \<in> set t. \<forall>b \<in> set a. P b \<Longrightarrow> \<forall>b \<in> set (concat t). P b"
  by auto

lemma has_shape4_flat:
  assumes "has_shape4 t d0 d1 d2 d3"
  shows "length (concat (concat (concat t))) = d0 * d1 * d2 * d3"
proof -
  have 1: "\<forall>a \<in> set t. length a = d1" "length t = d0"
    using assms by (auto simp: has_shape4_def)
  have 2: "\<forall>b \<in> set (concat t). length b = d2"
    using assms by (auto simp: has_shape4_def)
  have 3: "\<forall>c \<in> set (concat (concat t)). length c = d3"
    using assms by (auto simp: has_shape4_def)
  show ?thesis
    by (simp add: length_concat_rect[OF 3] length_concat_rect[OF 2] length_concat_rect[OF 1(1)] 1(2))
qed

lemma has_shape4_flat_nth:
  assumes "has_shape4 t d0 d1 d2 d3" "b < d0" "h < d1" "i < d2" "j < d3"
  shows "concat (concat (concat t)) ! (((b * d1 + h) * d2 + i) * d3 + j) = t ! b ! h ! i ! j"
proof -
  have 1: "\<forall>a \<in> set t. length a = d1" "length t = d0"
    using assms(1) by (auto simp: has_shape4_def)
  have 2: "\<forall>b \<in> set (concat t). length b = d2"
    using assms(1) by (auto simp: has_shape4_def)
  have 3: "\<forall>c \<in> set (concat (concat t)). length c = d3"
    using assms(1) by (auto simp: has_shape4_def)
  have l1: "length (concat t) = d0 * d1" by (simp add: length_concat_rect[OF 1(1)] 1(2))
  have l2: "length (concat (concat t)) = d0 * d1 * d2" by (simp add: length_concat_rect[OF 2] l1)
  have b1: "b * d1 + h < d0 * d1" using assms(2,3) by (rule idx_bound)
  have b2: "(b * d1 + h) * d2 + i < d0 * d1 * d2" using b1 assms(4) by (rule idx_bound)
  have "concat (concat (concat t)) ! (((b * d1 + h) * d2 + i) * d3 + j)
      = concat (concat t) ! ((b * d1 + h) * d2 + i) ! j"
    using b2 assms(5) by (intro concat_nth_rect[OF 3]) (simp_all add: l2)
  also have "concat (concat t) ! ((b * d1 + h) * d2 + i) = concat t ! (b * d1 + h) ! i"
    using b1 assms(4) by (intro concat_nth_rect[OF 2]) (simp_all add: l1)
  also have "concat t ! (b * d1 + h) = t ! b ! h"
    using assms(2,3) by (intro concat_nth_rect[OF 1(1)]) (simp_all add: 1(2))
  finally show ?thesis .
qed

lemma has_shape4_shape4:
  assumes "has_shape4 t d0 d1 d2 d3" "0 < d0" "0 < d1" "0 < d2"
  shows "shape4 t = (d0, d1, d2, d3)"
proof -
  obtain a t' where t: "t = a # t'" using assms(1,2) by (cases t) (auto simp: has_shape4_def)
  then have la: "length a = d1" using assms(1) by (auto simp: has_shape4_def)
  then obtain b a' where a: "a = b # a'" using assms(3) by (cases a) auto
  then have lb: "length b = d2" using assms(1) t by (auto simp: has_shape4_def)
  then obtain c b' where b: "b = c # b'" using assms(4) by (cases b) auto
  then have lc: "length c = d3" using assms(1) t a by (auto simp: has_shape4_def)
  show ?thesis using assms(1) la lb lc by (simp add: shape4_def first_len_def t a b has_shape4_def)
qed

lemma reshape4_ok:
  assumes "has_shape4 t d0 d1 d2 d3" "e0 * e1 * e2 * e3 = d0 * d1 * d2 * d3"
  shows "reshape4 t e0 e1 e2 e3 =
     Inr (map (\<lambda>b. map (\<lambda>h. map (\<lambda>i. map (\<lambda>j.
            concat (concat (concat t)) ! (((b * e1 + h) * e2 + i) * e3 + j))
          [0..<e3]) [0..<e2]) [0..<e1]) [0..<e0])"
  using has_shape4_flat[OF assms(1)] assms(2) by (simp add: reshape4_def Let_def)

lemma has_shape4_tabulate:
  "has_shape4 (map (\<lambda>b. map (\<lambda>h. map (\<lambda>i. map (\<lambda>j. f b h i j)
          [0..<e3]) [0..<e2]) [0..<e1]) [0..<e0]) e0 e1 e2 e3"
  by (auto simp: has_shape4_def)

lemma has_shape4_drop:
  "has_shape4 t d0 d1 d2 d3 \<Longrightarrow> has_shape4 (map (map (drop s)) t) d0 d1 (d2 - s) d3"
  by (auto simp: has_shape4_def dest: in_set_dropD)


lemma tabulate4_nth:
  assumes "b < e0" "h < e1" "i < e2" "j < e3"
  shows "map (\<lambda>b. map (\<lambda>h. map (\<lambda>i. map (\<lambda>j. f b h i j)
          [0..<e3]) [0..<e2]) [0..<e1]) [0..<e0] ! b ! h ! i ! j = f b h i j"
  using assms by simp

lemma split_index:
  fixes p S :: nat
  assumes "0 < S" "p < R * S"
  shows "p div S < R" and "p mod S < S" and "(p div S) * S + p mod S = p"
  using assms by (simp_all add: less_mult_imp_div_less)

lemma relative_shift_gather_index:
  assumes sh: "has_shape4 t B N S M" and pos: "0 < B" "0 < N" "0 < S"
    and s: "s \<le> M" and b: "b < B" and h: "h < N" and i: "i < S"
    and j: "j < C" "j < M - s"
  shows "\<exists>out. relative_shift_gather t C s = Inr out \<and>
           out ! b ! h ! i ! j =
             t ! b ! h ! ((s * S + i * (M - s) + j) div M) ! ((s * S + i * (M - s) + j) mod M)"
proof -
  define flat where "flat = concat (concat (concat t))"
  define t1 where "t1 = map (\<lambda>b. map (\<lambda>h. map (\<lambda>i. map (\<lambda>j.
            flat ! (((b * N + h) * M + i) * S + j)) [0..<S]) [0..<M]) [0..<N]) [0..<B]"
  define t2 where "t2 = map (map (drop s)) t1"
  define flat2 where "flat2 = concat (concat (concat t2))"
  define t3 where "t3 = map (\<lambda>b. map (\<lambda>h. map (\<lambda>i. map (\<lambda>j.
            flat2 ! (((b * N + h) * S + i) * (M - s) + j)) [0..<M - s]) [0..<S]) [0..<N]) [0..<B]"
  have M: "0 < M" using j(2) by simp
  have r1: "reshape4 t B N M S = Inr t1"
    unfolding t1_def flat_def by (rule reshape4_ok[OF sh]) (simp add: mult.commute mult.left_commute)
  have sh1: "has_shape4 t1 B N M S" unfolding t1_def by (rule has_shape4_tabulate)
  have sh2: "has_shape4 t2 B N (M - s) S" unfolding t2_def by (rule has_shape4_drop[OF sh1])
  have r2: "reshape4 t2 B N S (M - s) = Inr t3"
    unfolding t3_def flat2_def by (rule reshape4_ok[OF sh2]) (simp add: mult.commute mult.left_commute)
  have res: "relative_shift_gather t C s = Inr (map (map (map (take C))) t3)"
    using s by (simp add: relative_shift_gather_def has_shape4_shape4[OF sh pos] r1 r2
        t2_def[symmetric] Let_def)
  let ?p = "i * (M - s) + j"
  let ?r = "?p div S" and ?c = "?p mod S"
  have pS: "?p < (M - s) * S"
    using idx_bound[OF i j(2)] by (simp add: mult.commute)
  have rc: "?r < M - s" "?c < S" "?r * S + ?c = ?p"
    using split_index[OF pos(3) pS] by simp_all
  let ?q = "s * S + ?p"
  have qM: "?q < S * M"
  proof -
    have "?p < S * (M - s)" using pS by (simp add: mult.commute)
    then have "?q < s * S + S * (M - s)" by simp
    also have "\<dots> = S * M" using s by (simp add: mult.commute diff_mult_distrib2 algebra_simps)
    finally show ?thesis .
  qed
  have q: "?q div M < S" "?q mod M < M" "(?q div M) * M + ?q mod M = ?q"
    using split_index[OF M qM] by simp_all
  have "map (map (map (take C))) t3 ! b ! h ! i ! j = t3 ! b ! h ! i ! j"
  proof -
    have "length t3 = B" "length (t3 ! b) = N" "length (t3 ! b ! h) = S"
      using b h i by (simp_all add: t3_def)
    then show ?thesis using b h i j by simp
  qed
  also have "\<dots> = flat2 ! (((b * N + h) * S + i) * (M - s) + j)"
    unfolding t3_def using b h i j(2) by simp
  also have "((b * N + h) * S + i) * (M - s) + j = ((b * N + h) * (M - s) + ?r) * S + ?c"
  proof -
    have "((b * N + h) * (M - s) + ?r) * S + ?c = (b * N + h) * (M - s) * S + (?r * S + ?c)"
      by (simp add: add_mult_distrib)
    also have "\<dots> = (b * N + h) * S * (M - s) + ?p" by (simp only: rc(3) mult.assoc mult.commute[of S])
    also have "\<dots> = ((b * N + h) * S + i) * (M - s) + j" by (simp add: add_mult_distrib)
    finally show ?thesis by simp
  qed
  also have "flat2 ! (((b * N + h) * (M - s) + ?r) * S + ?c) = t2 ! b ! h ! ?r ! ?c"
    unfolding flat2_def by (rule has_shape4_flat_nth[OF sh2 b h rc(1,2)])
  also have "\<dots> = t1 ! b ! h ! (?r + s) ! ?c"
  proof -
    have "length t1 = B" "length (t1 ! b) = N" "length (t1 ! b ! h) = M"
      using b h by (simp_all add: t1_def)
    then show ?thesis using b h rc(1) s by (simp add: t2_def add.commute)
  qed
  also have "\<dots> = flat ! (((b * N + h) * M + (?r + s)) * S + ?c)"
  proof -
    have "?r + s < M" using rc(1) by simp
    then show ?thesis unfolding t1_def using b h rc(2) by simp
  qed
  also have "((b * N + h) * M + (?r + s)) * S + ?c = ((b * N + h) * S + ?q div M) * M + ?q mod M"
  proof -
    have "((b * N + h) * M + (?r + s)) * S + ?c = (b * N + h) * M * S + s * S + (?r * S + ?c)"
      by (simp add: add_mult_distrib)
    also have "\<dots> = (b * N + h) * S * M + ?q" by (simp only: rc(3)) (simp add: mult.commute mult.left_commute)
    also have "\<dots> = (b * N + h) * S * M + ((?q div M) * M + ?q mod M)" by (simp only: q(3))
    also have "\<dots> = ((b * N + h) * S + ?q div M) * M + ?q mod M" by (simp add: add_mult_distrib)
    finally show ?thesis .
  qed
  also have "flat ! (((b * N + h) * S + ?q div M) * M + ?q mod M) = t ! b ! h ! (?q div M) ! (?q mod M)"
    unfolding flat_def by (rule has_shape4_flat_nth[OF sh b h q(1,2)])
  finally show ?thesis using res by (simp add: add.assoc)
qed


text \<open>
  C1 (as amended): for every input tensor of shape
  \<open>[batch_size, n_head, seq_len, max_rel_len]\<close> with \<open>max_rel_len = 2 * context_len + shift - 1\<close>,
  \<open>shift = 1\<close> and \<open>seq_len \<le> context_len\<close>, the gather succeeds and its output at
  \<open>(b, h, i, j)\<close>, for \<open>i < seq_len\<close> and \<open>j < context_len\<close>, is the input at row \<open>i\<close>, column
  \<open>(j - i) + seq_len\<close>.  When \<open>seq_len = context_len\<close> (the case in which the attention
  uses \<open>shift = 1\<close>) the column is \<open>(j - i) + context_len\<close>: the key index minus the query
  index, not the query index minus the key index.
\<close>

theorem relative_shift_gather_shift_one:
  assumes "has_shape4 positional_attn batch_size n_head q_len (2 * context_len + 1 - 1)"
    and "q_len \<le> context_len"
    and "b < batch_size" and "h < n_head" and "i < q_len" and "j < context_len"
  shows "\<exists>out. relative_shift_gather positional_attn context_len 1 = Inr out \<and>
           out ! b ! h ! i ! j = positional_attn ! b ! h ! i ! (q_len + j - i)"
proof -
  let ?M = "2 * context_len + 1 - 1"
  have M: "?M = 2 * context_len" by simp
  have C: "0 < context_len" using assms(6) by simp
  have j': "j < ?M - 1" using assms(6) by simp
  have s1: "1 \<le> ?M" using C by simp
  have pos: "0 < batch_size" "0 < n_head" "0 < q_len" using assms(3,4,5) by simp_all
  let ?q = "1 * q_len + i * (?M - 1) + j"
  have "i * (?M - 1) + i = i * ?M" using C by (simp add: algebra_simps)
  then have q: "?q = (q_len + j - i) + i * ?M" using assms(5) by simp
  have lt: "q_len + j - i < ?M" using assms(2,6) by simp
  have "?q div ?M = i" "?q mod ?M = q_len + j - i"
    using lt by (simp_all only: q div_mult_self3 mod_mult_self3) simp_all
  then show ?thesis
    using relative_shift_gather_index[OF assms(1) pos s1 assms(3,4,5,6) j'] by simp
qed

theorem relative_shift_gather_shift_one_witness:
  "has_shape4
     [[[[0, 1, 2, 3, 4, 5, 6, 7], [8, 9, 10, 11, 12, 13, 14, 15],
        [16, 17, 18, 19, 20, 21, 22, 23], [24, 25, 26, 27, 28, 29, 30, 31 :: nat]]]] 1 1 4 (2 * 4 + 1 - 1)
   \<and> (\<exists>out. relative_shift_gather
     [[[[0, 1, 2, 3, 4, 5, 6, 7], [8, 9, 10, 11, 12, 13, 14, 15],
        [16, 17, 18, 19, 20, 21, 22, 23], [24, 25, 26, 27, 28, 29, 30, 31 :: nat]]]] 4 1 = Inr out \<and> out ! 0 ! 0 ! 1 ! 0 = 11)"
proof -
  have sh: "has_shape4
     [[[[0, 1, 2, 3, 4, 5, 6, 7], [8, 9, 10, 11, 12, 13, 14, 15],
        [16, 17, 18, 19, 20, 21, 22, 23], [24, 25, 26, 27, 28, 29, 30, 31 :: nat]]]] 1 1 4 (2 * 4 + 1 - 1)"
    by (simp add: has_shape4_def)
  from relative_shift_gather_shift_one [OF sh, of 0 0 1 0] sh show ?thesis by simp
qed

text \<open>
  The claim as stated reads the column \<open>(i - j) + context_len\<close>; with \<open>seq_len = 4\<close>,
  \<open>context_len = 4\<close> and the entries numbered \<open>0 .. 31\<close> in row-major order, the gathered score
  at \<open>(i, j) = (0, 1)\<close> is entry 5 of row 0, not entry \<open>(0 - 1) + 4 = 3\<close>.
\<close>

theorem relative_shift_gather_sign_counterexample:
  "relative_shift_gather
     [[[[0, 1, 2, 3, 4, 5, 6, 7], [8, 9, 10, 11, 12, 13, 14, 15],
        [16, 17, 18, 19, 20, 21, 22, 23], [24, 25, 26, 27, 28, 29, 30, 31 :: nat]]]] 4 1
   = Inr [[[[4, 5, 6, 7], [11, 12, 13, 14], [18, 19, 20, 21], [25, 26, 27, 28]]]]
   \<and> [[[[4, 5, 6, 7], [11, 12, 13, 14], [18, 19, 20, 21], [25, 26, 27, 28 :: nat]]]] ! 0 ! 0 ! 0 ! 1
     \<noteq> [[[[0, 1, 2, 3, 4, 5, 6, 7], [8, 9, 10, 11, 12, 13, 14, 15],
        [16, 17, 18, 19, 20, 21, 22, 23], [24, 25, 26, 27, 28, 29, 30, 31 :: nat]]]]
        ! 0 ! 0 ! 0 ! nat ((0 - 1) + 4)"
  by code_simp

subsection \<open>\<open>pool_tensor\<close>\<close>

lemma transpose_pair:
  "length u = length v \<Longrightarrow> transpose [u, v] = map2 (\<lambda>a b. [a, b]) u v"
proof (induction u v rule: list_induct2)
  case Nil
  then show ?case by simp
next
  case (Cons x xs y ys)
  then show ?case by simp
qed

lemma windows_2_of_6: "windows 2 [a, b, c, d, e, f] = [[a, b], [c, d], [e, f]]"
  by simp

lemma list5_ex:
  "length xs = 5 \<Longrightarrow> \<exists>a b c d e. xs = [a, b, c, d, e]"
  by (auto simp: eval_nat_numeral length_Suc_conv)

lemma list5:
  assumes "length xs = 5"
  shows "xs = [xs ! 0, xs ! 1, xs ! 2, xs ! 3, xs ! 4]"
proof -
  obtain a b c d e where "xs = [a, b, c, d, e]" using list5_ex[OF assms] by blast
  then show ?thesis by simp
qed

lemma sequence_sum_map_Inr:
  "sequence_sum (map (\<lambda>x. Inr (f x)) xs) = Inr (map f xs)"
  by (induction xs) simp_all

lemma sequence_sum_Inr_cong:
  assumes "\<And>x. x \<in> set xs \<Longrightarrow> g x = Inr (f x)"
  shows "sequence_sum (map g xs) = Inr (map f xs)"
proof -
  have "map g xs = map (\<lambda>x. Inr (f x)) xs" using assms by simp
  then show ?thesis by (simp only: sequence_sum_map_Inr)
qed

lemma mean_plane_row5:
  "pool_mode ''mean'' 2 (map (\<lambda>x. [x]) [x0, x0, x1, x2, x3, x4])
     = Inr [[x0], [(x1 + x2) / 2], [(x3 + x4) / 2]]"
  by (simp add: pool_mode_def avg_pool2d_def pool_plane_def window_mean_def)

lemma mean_pair: "length u = length v \<Longrightarrow>
   map window_mean (transpose [u, v]) = map2 (\<lambda>a b. (a + b) / 2) u v"
  by (simp add: transpose_pair window_mean_def map_zip_map2 comp_def split_def)

lemma mean_same: "map2 (\<lambda>a b. (a + b) / 2) u u = (u :: real list)"
  by (induction u) simp_all

lemma mean_plane_mat5:
  assumes "length v0 = H" "length v1 = H" "length v2 = H" "length v3 = H" "length v4 = H"
  shows "pool_mode ''mean'' 2 [v0, v0, v1, v2, v3, v4]
     = Inr [v0, map2 (\<lambda>a b. (a + b) / 2) v1 v2, map2 (\<lambda>a b. (a + b) / 2) v3 v4]"
  using assms by (simp add: pool_mode_def avg_pool2d_def pool_plane_def mean_pair mean_same)


lemma cls_prefix_row5:
  assumes "separate_cls cfg" "\<not> truncate_seq cfg" "length row = 5"
  shows "cls_prefix cfg [row] = [[row ! 0, row ! 0, row ! 1, row ! 2, row ! 3, row ! 4]]"
proof -
  have "take 1 row @ row = [row ! 0, row ! 0, row ! 1, row ! 2, row ! 3, row ! 4]"
    by (subst (1 2) list5[OF assms(3)]) simp
  then show ?thesis using assms(1,2) by (simp add: cls_prefix_def)
qed

lemma cls_prefix_map:
  "cls_prefix cfg t = concat (map (\<lambda>row. cls_prefix cfg [row]) t)"
  by (induction t) (simp_all add: cls_prefix_def)

lemma cls_prefix_rows5:
  assumes "separate_cls cfg" "\<not> truncate_seq cfg" "\<forall>row \<in> set t. length row = 5"
  shows "cls_prefix cfg t = map (\<lambda>row. [row ! 0, row ! 0, row ! 1, row ! 2, row ! 3, row ! 4]) t"
  using assms(3)
proof (induction t)
  case Nil
  then show ?case by (simp add: cls_prefix_def)
next
  case (Cons row t)
  have "cls_prefix cfg (row # t) = cls_prefix cfg [row] @ cls_prefix cfg t"
    by (simp add: cls_prefix_def)
  then show ?case using Cons cls_prefix_row5[OF assms(1,2), of row] by simp
qed

text \<open>
  C5 (as amended): with \<open>separate_cls=True\<close> and \<open>truncate_seq=False\<close>, \<open>pool_tensor\<close> with
  \<open>mode="mean"\<close> and \<open>stride=2\<close> on a single tensor of sequence length 5 (shape \<open>[batch, 5]\<close>
  or \<open>[batch, 5, H]\<close>) returns a tensor of sequence length 3 whose entry at position 0 is
  the input's entry at position 0, whose middle entry is the mean of the inputs at
  positions 1 and 2, and whose last entry is the mean of the inputs at positions 3 and 4:
  the class token is put in front once more, so the pooled sequence has the even length 6
  and no window is partial.
\<close>

theorem pool_tensor_mean_length_five:
  assumes "separate_cls cfg" and "\<not> truncate_seq cfg"
    and "\<forall>row \<in> set t2. length row = 5"
    and "\<forall>m \<in> set t3. length m = 5 \<and> (\<forall>v \<in> set m. length v = H)"
  shows "pool_tensor cfg (Suc depth) (Tensor2 t2) ''mean'' 2 =
           Inr (Tensor2 (map (\<lambda>row. [row ! 0, (row ! 1 + row ! 2) / 2, (row ! 3 + row ! 4) / 2]) t2))
       \<and> pool_tensor cfg (Suc depth) (Tensor3 t3) ''mean'' 2 =
           Inr (Tensor3 (map (\<lambda>m. [m ! 0, map2 (\<lambda>a b. (a + b) / 2) (m ! 1) (m ! 2),
                                      map2 (\<lambda>a b. (a + b) / 2) (m ! 3) (m ! 4)]) t3))"
proof
  have c2: "cls_prefix cfg t2 = map (\<lambda>row. [row ! 0, row ! 0, row ! 1, row ! 2, row ! 3, row ! 4]) t2"
    using assms(1,2,3) by (rule cls_prefix_rows5)
  have "sequence_sum (map (\<lambda>row. map_sum id (map hd) (pool_mode ''mean'' 2 (map (\<lambda>x. [x]) row)))
          (cls_prefix cfg t2))
      = Inr (map (\<lambda>row. [row ! 0, (row ! 1 + row ! 2) / 2, (row ! 3 + row ! 4) / 2]) t2)"
    unfolding c2 map_map comp_def
    by (rule sequence_sum_Inr_cong) (simp only: mean_plane_row5, simp)
  then show "pool_tensor cfg (Suc depth) (Tensor2 t2) ''mean'' 2 =
           Inr (Tensor2 (map (\<lambda>row. [row ! 0, (row ! 1 + row ! 2) / 2, (row ! 3 + row ! 4) / 2]) t2))"
    by simp
next
  have m5: "\<forall>m \<in> set t3. length m = 5" using assms(4) by blast
  have c3: "cls_prefix cfg t3 = map (\<lambda>m. [m ! 0, m ! 0, m ! 1, m ! 2, m ! 3, m ! 4]) t3"
    using assms(1,2) m5 by (rule cls_prefix_rows5)
  have "sequence_sum (map (pool_mode ''mean'' 2) (cls_prefix cfg t3))
      = Inr (map (\<lambda>m. [m ! 0, map2 (\<lambda>a b. (a + b) / 2) (m ! 1) (m ! 2),
                          map2 (\<lambda>a b. (a + b) / 2) (m ! 3) (m ! 4)]) t3)"
    unfolding c3 map_map comp_def
  proof (rule sequence_sum_Inr_cong)
    fix m assume "m \<in> set t3"
    then have "length m = 5" "\<forall>v \<in> set m. length v = H" using assms(4) by blast+
    then have "length (m ! 0) = H" "length (m ! 1) = H" "length (m ! 2) = H"
      "length (m ! 3) = H" "length (m ! 4) = H" by simp_all
    then show "pool_mode ''mean'' 2 [m ! 0, m ! 0, m ! 1, m ! 2, m ! 3, m ! 4] =
      Inr [m ! 0, map2 (\<lambda>a b. (a + b) / 2) (m ! 1) (m ! 2), map2 (\<lambda>a b. (a + b) / 2) (m ! 3) (m ! 4)]"
      by (rule mean_plane_mat5)
  qed
  then show "pool_tensor cfg (Suc depth) (Tensor3 t3) ''mean'' 2 =
           Inr (Tensor3 (map (\<lambda>m. [m ! 0, map2 (\<lambda>a b. (a + b) / 2) (m ! 1) (m ! 2),
                                      map2 (\<lambda>a b. (a + b) / 2) (m ! 3) (m ! 4)]) t3))"
    by simp
qed

theorem pool_tensor_mean_length_five_witness:
  "pool_tensor cfg_cls (Suc 0) (Tensor2 [[1, 2, 3, 4, 10]]) ''mean'' 2 = Inr (Tensor2 [[1, 5 / 2, 7]])
   \<and> pool_tensor cfg_cls (Suc 0) (Tensor3 [[[1, 1], [2, 2], [3, 3], [4, 4], [10, 20]]]) ''mean'' 2
       = Inr (Tensor3 [[[1, 1], [5 / 2, 5 / 2], [7, 12]]])"
  using pool_tensor_mean_length_five [of cfg_cls "[[1, 2, 3, 4, 10]]"
      "[[[1, 1], [2, 2], [3, 3], [4, 4], [10, 20]]]" 2 0]
  by (simp add: cfg_cls_def)

text \<open>
  The claim as stated has the last window cover input index 4 alone; on the row
  \<open>[1, 2, 3, 4, 10]\<close> the last output is 7, the mean of 4 and 10, not 10.
\<close>

theorem pool_tensor_last_window_counterexample:
  "pool_tensor cfg_cls (Suc 0) (Tensor2 [[1, 2, 3, 4, 10]]) ''mean'' 2 = Inr (Tensor2 [[1, 5 / 2, 7]])
   \<and> [1, 5 / 2, 7 :: real] ! 2 \<noteq> window_mean [[1, 2, 3, 4, 10] ! 4]"
  by (simp add: cfg_cls_def cls_prefix_def pool_mode_def avg_pool2d_def pool_plane_def window_mean_def)

text \<open>
  C6: on a non-empty tuple or list, \<open>pool_tensor\<close> never returns a value: whatever depth
  of nested calls is allowed, the call ends in \<open>RecursionError\<close>, because every nested
  call is made on the whole sequence again instead of on its element.
\<close>

theorem pool_tensor_sequence_recursion:
  assumes "xs \<noteq> []"
  shows "pool_tensor cfg depth (PTuple xs) mode stride = Inl RecursionError
       \<and> pool_tensor cfg depth (PList xs) mode stride = Inl RecursionError"
proof (induction depth)
  case 0
  show ?case by simp
next
  case (Suc depth)
  obtain x xs' where xs: "xs = x # xs'" using assms by (cases xs) auto
  have "sequence_sum (map (\<lambda>x. pool_tensor cfg depth (PTuple xs) mode stride) xs) = Inl RecursionError"
    using Suc by (simp add: xs)
  moreover have "sequence_sum (map (\<lambda>x. pool_tensor cfg depth (PList xs) mode stride) xs) = Inl RecursionError"
    using Suc by (simp add: xs)
  ultimately show ?case by simp
qed

theorem pool_tensor_sequence_recursion_witness:
  "pool_tensor cfg_cls recursion_limit (PTuple [Tensor2 [[1, 2, 3]]]) ''mean'' 2 = Inl RecursionError
   \<and> pool_tensor cfg_cls recursion_limit (PList [Tensor2 [[1, 2, 3]]]) ''mean'' 2 = Inl RecursionError"
  using pool_tensor_sequence_recursion [of "[Tensor2 [[1, 2, 3]]]" cfg_cls recursion_limit "''mean''" 2]
  by simp

subsection \<open>\<open>token_type_ids_to_mat\<close> and the class-token mask\<close>

lemma or_of_bool_nonzero:
  "((of_bool p :: int) OR of_bool q) \<noteq> 0 \<longleftrightarrow> p \<or> q"
  by (cases p; cases q) simp_all

lemma or3_of_bool_nonzero:
  "(((of_bool p :: int) OR of_bool q) OR of_bool r) \<noteq> 0 \<longleftrightarrow> p \<or> q \<or> r"
  by (cases p; cases q; cases r) simp_all

text \<open>
  C7: for every batch of integer \<open>token_type_ids\<close>, \<open>token_type_ids_to_mat\<close> returns a boolean
  matrix of the same batch size and of shape \<open>[T, T]\<close> per batch entry whose entry
  \<open>(b, i, j)\<close> is true iff position \<open>i\<close> or position \<open>j\<close> has the class-token type id 2 or
  both positions have the same segment id; for the ids \<open>[2, 0, 0, 1, 1]\<close> row and column 0
  are all true, positions 1-2 are true among themselves and false against 3-4, and
  positions 3-4 are true among themselves.
\<close>

theorem token_type_ids_to_mat_invariant:
  "length (token_type_ids_to_mat ids) = length ids
   \<and> (\<forall>b < length ids. length (token_type_ids_to_mat ids ! b) = length (ids ! b)
        \<and> (\<forall>i < length (ids ! b). length (token_type_ids_to_mat ids ! b ! i) = length (ids ! b)
             \<and> (\<forall>j < length (ids ! b).
                   token_type_ids_to_mat ids ! b ! i ! j \<longleftrightarrow>
                     (ids ! b ! i = cls_token_type_id \<or> ids ! b ! j = cls_token_type_id
                      \<or> ids ! b ! i = ids ! b ! j))))
   \<and> cls_token_type_id = 2
   \<and> token_type_ids_to_mat [[2, 0, 0, 1, 1]] =
        [[[True, True, True, True, True],
          [True, True, True, False, False],
          [True, True, True, False, False],
          [True, False, False, True, True],
          [True, False, False, True, True]]]"
proof (intro conjI allI impI)
  show "token_type_ids_to_mat [[2, 0, 0, 1, 1]] =
        [[[True, True, True, True, True],
          [True, True, True, False, False],
          [True, True, True, False, False],
          [True, False, False, True, True],
          [True, False, False, True, True]]]"
    by (simp add: token_type_ids_to_mat_def cls_token_type_id_def)
qed (simp_all add: token_type_ids_to_mat_def Let_def or3_of_bool_nonzero cls_token_type_id_def)

theorem token_type_ids_to_mat_invariant_witness:
  "\<not> token_type_ids_to_mat [[2, 0, 0, 1, 1]] ! 0 ! 1 ! 3
   \<and> token_type_ids_to_mat [[2, 0, 0, 1, 1]] ! 0 ! 0 ! 3
   \<and> token_type_ids_to_mat [[2, 0, 0, 1, 1]] ! 0 ! 3 ! 4"
  using token_type_ids_to_mat_invariant [of "[[2, 0, 0, 1, 1]]"]
  by (simp add: cls_token_type_id_def)

lemma F_pad_leading_nth:
  assumes "length m = r" "\<forall>row \<in> set m. length row = c" "i < Suc r" "j < Suc c"
  shows "length (F_pad m c (1, 0, 1, 0) v) = Suc r"
    and "length (F_pad m c (1, 0, 1, 0) v ! i) = Suc c"
    and "F_pad m c (1, 0, 1, 0) v ! i ! j = (if i = 0 \<or> j = 0 then v else m ! (i - 1) ! (j - 1))"
  using assms by (auto simp: F_pad_def nth_Cons' nth_append)

text \<open>
  C8 (as amended): for every sequence length \<open>seq_len \<ge> 1\<close>, when \<open>separate_cls\<close> is
  enabled, \<open>init_attention_inputs\<close> produces a class-token mask of shape
  \<open>[seq_len, seq_len]\<close> that is a \<open>[seq_len - 1, seq_len - 1]\<close> block of ones padded with a
  leading row and a leading column of zeros.
\<close>

theorem init_attention_inputs_cls_mask:
  assumes "separate_cls cfg" and "1 \<le> shape1 inputs_embeds"
  shows "\<exists>ai m. fst (init_attention_inputs cfg gpe self inputs_embeds am token_type_ids) = Inr ai
       \<and> cls_mask ai = Some m
       \<and> length m = shape1 inputs_embeds
       \<and> (\<forall>i < shape1 inputs_embeds. length (m ! i) = shape1 inputs_embeds
            \<and> (\<forall>j < shape1 inputs_embeds. m ! i ! j = (if i = 0 \<or> j = 0 then 0 else 1)))"
proof -
  let ?n = "shape1 inputs_embeds"
  let ?m = "F_pad (new_ones (?n - 1) (?n - 1)) (?n - 1) (1, 0, 1, 0) F_pad_default_value"
  have n: "Suc (?n - 1) = ?n" using assms(2) by simp
  have ones: "length (new_ones (?n - 1) (?n - 1)) = ?n - 1"
    "\<forall>row \<in> set (new_ones (?n - 1) (?n - 1)). length row = ?n - 1"
    by (simp_all add: new_ones_def)
  have cm: "init_cls_mask cfg ?n = Inr (Some ?m)"
    using assms by (simp add: init_cls_mask_def)
  have len: "length ?m = ?n" using F_pad_leading_nth(1)[OF ones, of 0 0] n by simp
  have ent: "length (?m ! i) = ?n \<and> (\<forall>j < ?n. ?m ! i ! j = (if i = 0 \<or> j = 0 then 0 else 1))"
    if "i < ?n" for i
  proof (intro conjI allI impI)
    have i: "i < Suc (?n - 1)" using that n by simp
    show "length (?m ! i) = ?n" using F_pad_leading_nth(2)[OF ones i, of 0] n by simp
    fix j assume "j < ?n"
    then have j: "j < Suc (?n - 1)" using n by simp
    have "?m ! i ! j = (if i = 0 \<or> j = 0 then F_pad_default_value
        else new_ones (?n - 1) (?n - 1) ! (i - 1) ! (j - 1))"
      by (rule F_pad_leading_nth(3)[OF ones i j])
    moreover have "new_ones (?n - 1) (?n - 1) ! (i - 1) ! (j - 1) = 1" if "i \<noteq> 0" "j \<noteq> 0"
      using that i j by (simp add: new_ones_def)
    ultimately show "?m ! i ! j = (if i = 0 \<or> j = 0 then 0 else 1)"
      by (simp add: F_pad_default_value_def)
  qed
  have "fst (init_attention_inputs cfg gpe self inputs_embeds am token_type_ids)
      = Inr \<lparr>position_embeds = gpe ?n, token_type_mat = map_option token_type_ids_to_mat token_type_ids,
             attention_mask = am, cls_mask = Some ?m\<rparr>"
    by (simp add: init_attention_inputs_def Let_def cm)
  then show ?thesis using len ent by auto
qed


theorem init_attention_inputs_cls_mask_witness:
  "\<exists>ai m. fst (init_attention_inputs cfg_cls no_position_embeds fresh_structure
                 [[[0], [0], [0]]] None None) = Inr ai
     \<and> cls_mask ai = Some m \<and> length m = 3 \<and> m ! 0 ! 1 = 0 \<and> m ! 1 ! 0 = 0 \<and> m ! 1 ! 2 = 1"
proof -
  have sc: "separate_cls cfg_cls" by (simp add: cfg_cls_def)
  have n: "shape1 [[[0 :: real], [0], [0]]] = 3" by (simp add: shape1_def first_len_def)
  then have n1: "1 \<le> shape1 [[[0 :: real], [0], [0]]]" by simp
  from init_attention_inputs_cls_mask [OF sc n1, of no_position_embeds fresh_structure None None]
  obtain ai m where
    "fst (init_attention_inputs cfg_cls no_position_embeds fresh_structure
            [[[0], [0], [0]]] None None) = Inr ai"
    "cls_mask ai = Some m" "length m = 3"
    "\<forall>i < 3. length (m ! i) = 3 \<and> (\<forall>j < 3. m ! i ! j = (if i = 0 \<or> j = 0 then 0 else 1))"
    unfolding n by blast
  then show ?thesis by (intro exI[of _ ai] exI[of _ m]) simp
qed

text \<open>
  The claim as stated pads with ones; for sequence length 3 the mask has a leading row and
  column of zeros, so it differs from the block of ones padded with ones.
\<close>

theorem init_attention_inputs_cls_mask_counterexample:
  "fst (init_attention_inputs cfg_cls no_position_embeds fresh_structure
          [[[0], [0], [0]]] None None)
     = Inr \<lparr>position_embeds = [], token_type_mat = None, attention_mask = None,
            cls_mask = Some [[0, 0, 0], [0, 1, 1], [0, 1, 1]]\<rparr>
   \<and> [[0, 0, 0], [0, 1, 1], [0, 1, 1 :: real]] \<noteq> F_pad (new_ones 2 2) 2 (1, 0, 1, 0) 1"
  by (simp add: init_attention_inputs_def init_cls_mask_def cfg_cls_def no_position_embeds_def
      shape1_def first_len_def F_pad_def new_ones_def F_pad_default_value_def Let_def
      eval_nat_numeral)


subsection \<open>Input validation of the forward passes\<close>

lemma is_value_error_simps [simp]:
  "\<not> is_value_error IndexError" "is_value_error (ValueError m)"
  "\<not> is_value_error (NotImplementedError m)" "\<not> is_value_error RecursionError"
  "\<not> is_value_error (RuntimeError m)" "\<not> is_value_error TypeError"
  by (simp_all add: is_value_error_def)

lemma sequence_sum_Inl:
  "sequence_sum rs = Inl e \<Longrightarrow> \<exists>r \<in> set rs. r = Inl e"
proof (induction rs rule: sequence_sum.induct)
  case 1
  then show ?case by simp
next
  case (2 e' rest)
  then show ?case by simp
next
  case (3 x rest)
  then show ?case by (auto split: sum.splits)
qed

lemma map_sum_id_Inl:
  "map_sum id f r = Inl e \<longleftrightarrow> r = Inl e"
  "Inl e = map_sum id f r \<longleftrightarrow> r = Inl e"
  by (cases r; auto)+

lemma pool_plane_no_ve: "pool_plane reduce stride plane = Inl e \<Longrightarrow> is_value_error e \<Longrightarrow> False"
  by (auto simp: pool_plane_def split: if_splits)

lemma pool_mode_no_ve: "pool_mode mode stride plane = Inl e \<Longrightarrow> is_value_error e \<Longrightarrow> False"
  by (auto simp: pool_mode_def avg_pool2d_def max_pool2d_def map_sum_id_Inl
      split: if_splits dest: pool_plane_no_ve)

lemma pool_tensor_no_ve:
  "pool_tensor cfg depth t mode stride = Inl e \<Longrightarrow> is_value_error e \<Longrightarrow> False"
proof (induction depth arbitrary: e t)
  case 0
  then show ?case by auto
next
  case (Suc depth)
  show ?case
  proof (cases t)
    case PNone
    then show ?thesis using Suc.prems by simp
  next
    case (Tensor2 x)
    then have "sequence_sum (map (\<lambda>row. map_sum id (map hd) (pool_mode mode stride (map (\<lambda>x. [x]) row)))
          (cls_prefix cfg x)) = Inl e"
      using Suc.prems(1) by (simp add: map_sum_id_Inl)
    then obtain row where "map_sum id (map hd) (pool_mode mode stride (map (\<lambda>x. [x]) row)) = Inl e"
      by (auto dest!: sequence_sum_Inl)
    then have "pool_mode mode stride (map (\<lambda>x. [x]) row) = Inl e" by (simp add: map_sum_id_Inl)
    then show ?thesis using Suc.prems(2) by (rule pool_mode_no_ve)
  next
    case (Tensor3 x)
    then have "sequence_sum (map (pool_mode mode stride) (cls_prefix cfg x)) = Inl e"
      using Suc.prems(1) by (simp add: map_sum_id_Inl)
    then obtain plane where "pool_mode mode stride plane = Inl e"
      by (auto dest!: sequence_sum_Inl)
    then show ?thesis using Suc.prems(2) by (rule pool_mode_no_ve)
  next
    case (PTuple xs)
    then have "sequence_sum (map (\<lambda>x. pool_tensor cfg depth (PTuple xs) mode stride) xs) = Inl e"
      using Suc.prems(1) by (simp add: map_sum_id_Inl)
    then have "pool_tensor cfg depth (PTuple xs) mode stride = Inl e"
      by (auto dest!: sequence_sum_Inl)
    then show ?thesis using Suc.prems(2) by (rule Suc.IH)
  next
    case (PList xs)
    then have "sequence_sum (map (\<lambda>x. pool_tensor cfg depth (PList xs) mode stride) xs) = Inl e"
      using Suc.prems(1) by (simp add: map_sum_id_Inl)
    then have "pool_tensor cfg depth (PList xs) mode stride = Inl e"
      by (auto dest!: sequence_sum_Inl)
    then show ?thesis using Suc.prems(2) by (rule Suc.IH)
  qed
qed

lemma pool_mask_no_ve: "pool_mask cfg am = Inl e \<Longrightarrow> is_value_error e \<Longrightarrow> False"
  by (auto simp: pool_mask_def split: sum.splits pyval.splits dest: pool_tensor_no_ve)

lemma pool_hidden_no_ve: "pool_hidden cfg t = Inl e \<Longrightarrow> is_value_error e \<Longrightarrow> False"
  by (auto simp: pool_hidden_def split: sum.splits pyval.splits dest: pool_tensor_no_ve)

lemma double_pooling_mult_no_ve: "double_pooling_mult self = Inl e \<Longrightarrow> is_value_error e \<Longrightarrow> False"
  by (auto simp: double_pooling_mult_def split: option.splits)

lemma pre_attention_pooling_no_ve:
  "pre_attention_pooling cfg self out ai = (Inl e, s) \<Longrightarrow> is_value_error e \<Longrightarrow> False"
  by (auto simp: pre_attention_pooling_def Let_def split: if_splits sum.splits
      dest: pool_mask_no_ve pool_hidden_no_ve double_pooling_mult_no_ve)

lemma post_attention_pooling_no_ve:
  "post_attention_pooling cfg self ai = (Inl e, s) \<Longrightarrow> is_value_error e \<Longrightarrow> False"
  by (auto simp: post_attention_pooling_def Let_def split: if_splits sum.splits
      dest: pool_mask_no_ve double_pooling_mult_no_ve)

lemma is_usage_error_value_error: "is_usage_error e \<Longrightarrow> is_value_error e"
  by (auto simp: is_usage_error_def both_inputs_error_def no_input_error_def)

lemma is_usage_error_simps [simp]:
  "\<not> is_usage_error IndexError" "\<not> is_usage_error (NotImplementedError m)"
  "\<not> is_usage_error RecursionError" "\<not> is_usage_error (RuntimeError m)"
  "\<not> is_usage_error TypeError" "\<not> is_usage_error (ValueError ''negative dimension'')"
  by (simp_all add: is_usage_error_def both_inputs_error_def no_input_error_def)

lemma pad_seq_end_no_ve: "pad_seq_end p row = Inl e \<Longrightarrow> is_value_error e \<Longrightarrow> False"
  by (auto simp: pad_seq_end_def split: if_splits)

lemma upsample_no_ve: "upsample x stride n sc ts = Inl e \<Longrightarrow> is_value_error e \<Longrightarrow> False"
  by (auto simp: upsample_def Let_def split: if_splits sum.splits
      dest!: sequence_sum_Inl dest: pad_seq_end_no_ve pad_seq_end_no_ve[OF sym])

lemma broadcast2_no_ve:
  assumes "\<forall>a b e. f a b = Inl e \<longrightarrow> \<not> is_value_error e"
  shows "\<forall>xs ys e. broadcast2 f xs ys = Inl e \<longrightarrow> \<not> is_value_error e"
proof (intro allI impI)
  fix xs ys e assume "broadcast2 f xs ys = Inl e"
  then have "(\<exists>a b. f a b = Inl e) \<or> e = RuntimeError ''operands could not be broadcast together''"
    by (auto simp: broadcast2_def split: if_splits dest!: sequence_sum_Inl) blast+
  then show "\<not> is_value_error e" using assms by auto
qed

lemma tensor_add_no_ve: "tensor_add x y = Inl e \<Longrightarrow> is_value_error e \<Longrightarrow> False"
proof -
  have "\<forall>a b e. (Inr (a + b) :: error + real) = Inl e \<longrightarrow> \<not> is_value_error e" by simp
  from broadcast2_no_ve[OF broadcast2_no_ve[OF broadcast2_no_ve[OF this]]]
  show "tensor_add x y = Inl e \<Longrightarrow> is_value_error e \<Longrightarrow> False"
    unfolding tensor_add_def by blast
qed

text \<open>
  No function below the forward passes raises one of the two usage errors, unless a layer
  or the embeddings do.
\<close>

lemma pre_attention_pooling_no_usage:
  "pre_attention_pooling cfg self out ai = (Inl e, s) \<Longrightarrow> is_usage_error e \<Longrightarrow> False"
  by (blast dest: is_usage_error_value_error pre_attention_pooling_no_ve)

lemma post_attention_pooling_no_usage:
  "post_attention_pooling cfg self ai = (Inl e, s) \<Longrightarrow> is_usage_error e \<Longrightarrow> False"
  by (blast dest: is_usage_error_value_error post_attention_pooling_no_ve)

lemma upsample_no_usage: "upsample x stride n sc ts = Inl e \<Longrightarrow> is_usage_error e \<Longrightarrow> False"
  by (blast dest: is_usage_error_value_error upsample_no_ve)

lemma tensor_add_no_usage: "tensor_add x y = Inl e \<Longrightarrow> is_usage_error e \<Longrightarrow> False"
  by (blast dest: is_usage_error_value_error tensor_add_no_ve)

lemma init_attention_inputs_no_usage:
  "init_attention_inputs cfg gpe self x am tti = (Inl e, s) \<Longrightarrow> is_usage_error e \<Longrightarrow> False"
  by (auto simp: init_attention_inputs_def init_cls_mask_def Let_def is_usage_error_def
      both_inputs_error_def no_input_error_def split: if_splits sum.splits)

lemma encoder_layer_no_usage:
  "layers_raise_no_usage_error fns \<Longrightarrow> encoder_layer fns bi li q k v ai = Inl e \<Longrightarrow>
   is_usage_error e \<Longrightarrow> False"
  unfolding layers_raise_no_usage_error_def by blast

lemma decoder_layer_no_usage:
  "layers_raise_no_usage_error fns \<Longrightarrow> decoder_layer fns li q k v ai = Inl e \<Longrightarrow>
   is_usage_error e \<Longrightarrow> False"
  unfolding layers_raise_no_usage_error_def by blast

lemma encoder_layer_step_no_usage:
  assumes "layers_raise_no_usage_error fns"
    and "encoder_layer_step cfg fns ohs bi pf ph ix st self = (Inl e, s)"
    and "is_usage_error e"
  shows False
  using assms(2,3)
  by (auto simp: encoder_layer_step_def Let_def split: if_splits sum.splits prod.splits
      dest: post_attention_pooling_no_usage encoder_layer_no_usage[OF assms(1)])

lemma encoder_layers_no_usage:
  assumes "layers_raise_no_usage_error fns"
  shows "encoder_layers cfg fns ohs bi pf ph ixs st self = (Inl e, s) \<Longrightarrow> is_usage_error e \<Longrightarrow> False"
proof (induction ixs arbitrary: st self)
  case Nil
  then show ?case by simp
next
  case (Cons ix ixs)
  then show ?case
    by (auto split: sum.splits prod.splits dest: encoder_layer_step_no_usage[OF assms])
qed

lemma encoder_block_no_usage:
  assumes "layers_raise_no_usage_error fns"
    and "encoder_block cfg fns ohs blk st self = (Inl e, s)"
    and "is_usage_error e"
  shows False
  using assms(2,3)
  by (auto simp: encoder_block_def Let_def split: if_splits sum.splits prod.splits
      dest: pre_attention_pooling_no_usage encoder_layers_no_usage[OF assms(1)])

lemma encoder_blocks_no_usage:
  assumes "layers_raise_no_usage_error fns"
  shows "encoder_blocks cfg fns ohs blks st self = (Inl e, s) \<Longrightarrow> is_usage_error e \<Longrightarrow> False"
proof (induction blks arbitrary: st self)
  case Nil
  then show ?case by simp
next
  case (Cons blk blks)
  then show ?case
    by (auto split: sum.splits prod.splits dest: encoder_block_no_usage[OF assms])
qed

lemma encoder_forward_no_usage:
  assumes "layers_raise_no_usage_error fns"
    and "encoder_forward cfg fns self x am tti ohs = (Inl e, s)"
    and "is_usage_error e"
  shows False
  using assms(2,3)
  by (auto simp: encoder_forward_def split: sum.splits prod.splits
      dest: init_attention_inputs_no_usage encoder_blocks_no_usage[OF assms(1)])

lemma decoder_layers_no_usage:
  assumes "layers_raise_no_usage_error fns"
  shows "decoder_layers fns ohs ai ls st = Inl e \<Longrightarrow> is_usage_error e \<Longrightarrow> False"
proof (induction ls arbitrary: st)
  case Nil
  then show ?case by simp
next
  case (Cons l ls)
  then show ?case
    by (auto split: sum.splits prod.splits dest: decoder_layer_no_usage[OF assms])
qed

lemma decoder_after_upsample_no_usage:
  assumes "layers_raise_no_usage_error fns"
    and "decoder_after_upsample cfg fns self up fbh am tti ohs = (Inl e, s)"
    and "is_usage_error e"
  shows False
  using assms(2,3)
  by (auto simp: decoder_after_upsample_def split: if_splits sum.splits prod.splits
      dest: tensor_add_no_usage init_attention_inputs_no_usage decoder_layers_no_usage[OF assms(1)])

lemma decoder_forward_no_usage:
  assumes "layers_raise_no_usage_error fns"
    and "decoder_forward cfg fns self fh fbh am tti ohs = (Inl e, s)"
    and "is_usage_error e"
  shows False
  using assms(2,3)
  by (auto simp: decoder_forward_def is_usage_error_def both_inputs_error_def no_input_error_def
      split: if_splits sum.splits
      dest: upsample_no_usage[unfolded is_usage_error_def both_inputs_error_def no_input_error_def]
        decoder_after_upsample_no_usage[OF assms(1),
          unfolded is_usage_error_def both_inputs_error_def no_input_error_def])

lemma embeddings_forward_no_usage:
  assumes "layers_raise_no_usage_error fns"
    and "embeddings_forward fns ids emb = Inl e"
    and "is_usage_error e"
  shows False
proof -
  have w: "\<And>ids e. word_embeddings fns ids = Inl e \<Longrightarrow> is_usage_error e \<Longrightarrow> False"
    and n: "\<And>x e. embed_norm fns x = Inl e \<Longrightarrow> is_usage_error e \<Longrightarrow> False"
    using assms(1) unfolding layers_raise_no_usage_error_def by blast+
  have "e = TypeError \<or> (\<exists>ids. word_embeddings fns ids = Inl e) \<or> (\<exists>x. embed_norm fns x = Inl e)"
    using assms(2) by (auto simp: embeddings_forward_def split: option.splits sum.splits)
  then show False
    using assms(3) w n
    by (auto simp: is_usage_error_def both_inputs_error_def no_input_error_def)
qed


text \<open>
  C9: \<open>FunnelModel.forward\<close> and \<open>FunnelBaseModel.forward\<close> raise a \<open>ValueError\<close> when both
  \<open>input_ids\<close> and \<open>inputs_embeds\<close> are supplied and when neither is; in both cases the
  result does not depend on the embedding, the layers or any other input, and the state
  of the model is the one before the call.  When exactly one of the two is supplied the
  call raises neither of these two errors, provided that the embeddings and the layers do
  not raise an exception with one of the two messages themselves.  (Another \<open>ValueError\<close>
  is possible then: the class-token mask of an input of sequence length 0, or a layer
  given an attention mask of the wrong shape, raise one.)
\<close>

theorem forward_input_validation:
  "FunnelModel_forward cfg fns st (Some ids) am tti (Some emb) ohs = (Inl both_inputs_error, st)
   \<and> FunnelModel_forward cfg fns st None am tti None ohs = (Inl no_input_error, st)
   \<and> FunnelBaseModel_forward cfg fns st (Some ids) am tti (Some emb) ohs = (Inl both_inputs_error, st)
   \<and> FunnelBaseModel_forward cfg fns st None am tti None ohs = (Inl no_input_error, st)
   \<and> is_value_error both_inputs_error \<and> is_value_error no_input_error
   \<and> (layers_raise_no_usage_error fns \<and> (input_ids = None) \<noteq> (inputs_embeds = None) \<longrightarrow>
        (\<forall>e. fst (FunnelModel_forward cfg fns st input_ids am tti inputs_embeds ohs) = Inl e
              \<longrightarrow> \<not> is_usage_error e)
        \<and> (\<forall>e. fst (FunnelBaseModel_forward cfg fns st input_ids am tti inputs_embeds ohs) = Inl e
              \<longrightarrow> \<not> is_usage_error e))"
proof (intro conjI impI allI)
  show "FunnelModel_forward cfg fns st (Some ids) am tti (Some emb) ohs = (Inl both_inputs_error, st)"
    by (simp add: FunnelModel_forward_def)
  show "FunnelModel_forward cfg fns st None am tti None ohs = (Inl no_input_error, st)"
    by (simp add: FunnelModel_forward_def)
  show "FunnelBaseModel_forward cfg fns st (Some ids) am tti (Some emb) ohs = (Inl both_inputs_error, st)"
    by (simp add: FunnelBaseModel_forward_def)
  show "FunnelBaseModel_forward cfg fns st None am tti None ohs = (Inl no_input_error, st)"
    by (simp add: FunnelBaseModel_forward_def)
  show "is_value_error both_inputs_error" by (simp add: both_inputs_error_def)
  show "is_value_error no_input_error" by (simp add: no_input_error_def)
next
  fix e
  assume hyp: "layers_raise_no_usage_error fns \<and> (input_ids = None) \<noteq> (inputs_embeds = None)"
    and r: "fst (FunnelModel_forward cfg fns st input_ids am tti inputs_embeds ohs) = Inl e"
  then have l: "layers_raise_no_usage_error fns"
    and one: "(input_ids = None) \<noteq> (inputs_embeds = None)" by simp_all
  have ne: "TypeError \<noteq> e \<and> IndexError \<noteq> e" if "is_usage_error e"
    using that by (auto simp: is_usage_error_def both_inputs_error_def no_input_error_def)
  show "\<not> is_usage_error e"
  proof
    assume u: "is_usage_error e"
    with one r ne show False
      by (auto simp: FunnelModel_forward_def Let_def
          split: if_splits sum.splits prod.splits option.splits list.splits
          dest: embeddings_forward_no_usage[OF l] encoder_forward_no_usage[OF l]
            decoder_forward_no_usage[OF l])
  qed
next
  fix e
  assume hyp: "layers_raise_no_usage_error fns \<and> (input_ids = None) \<noteq> (inputs_embeds = None)"
    and r: "fst (FunnelBaseModel_forward cfg fns st input_ids am tti inputs_embeds ohs) = Inl e"
  then have l: "layers_raise_no_usage_error fns"
    and one: "(input_ids = None) \<noteq> (inputs_embeds = None)" by simp_all
  show "\<not> is_usage_error e"
  proof
    assume u: "is_usage_error e"
    with one r show False
      by (auto simp: FunnelBaseModel_forward_def Let_def
          split: if_splits sum.splits prod.splits option.splits
          dest: embeddings_forward_no_usage[OF l] encoder_forward_no_usage[OF l])
  qed
qed

lemma layers_raise_no_usage_error_id_fns: "layers_raise_no_usage_error id_fns"
  by (simp add: layers_raise_no_usage_error_def id_fns_def)

theorem forward_input_validation_witness:
  "fst (FunnelModel_forward cfg_cls id_fns fresh_model (Some [[1, 2, 3]]) None None None False)
     \<noteq> Inl both_inputs_error
   \<and> fst (FunnelModel_forward cfg_cls id_fns fresh_model (Some [[1, 2, 3]]) None None None False)
     \<noteq> Inl no_input_error
   \<and> fst (FunnelBaseModel_forward cfg_cls id_fns fresh_model None None None (Some [[[1], [2], [3]]]) False)
     \<noteq> Inl both_inputs_error
   \<and> fst (FunnelBaseModel_forward cfg_cls id_fns fresh_model None None None (Some [[[1], [2], [3]]]) False)
     \<noteq> Inl no_input_error"
  using forward_input_validation [of cfg_cls id_fns fresh_model undefined None None undefined False
      "Some [[1, 2, 3]]" None]
    forward_input_validation [of cfg_cls id_fns fresh_model undefined None None undefined False
      None "Some [[[1], [2], [3]]]"]
    layers_raise_no_usage_error_id_fns
  by (auto simp: is_usage_error_def)

text \<open>
  A \<open>ValueError\<close> other than the two usage errors does occur with exactly one input: an
  input of sequence length 0 makes the class-token mask ask for a dimension of \<open>-1\<close>.
\<close>

lemma forward_empty_sequence_value_error:
  "fst (FunnelBaseModel_forward cfg_cls id_fns fresh_model (Some [[]]) None None None False)
     = Inl (ValueError ''negative dimension'')"
  by (simp add: FunnelBaseModel_forward_def input_shape_of_def shape1_def first_len_def
      embeddings_forward_def id_fns_def encoder_forward_def init_attention_inputs_def
      init_cls_mask_def cfg_cls_def fresh_model_def fresh_structure_def Let_def)


subsection \<open>Shapes through pooling and through the encoder blocks\<close>

declare windows.simps [simp del]

lemma windows_length:
  "0 < k \<Longrightarrow> length (windows k xs) = (length xs + k - 1) div k"
proof (induction k xs rule: windows.induct)
  case (1 k xs)
  show ?case
  proof (cases "xs = []")
    case True
    then show ?thesis using 1(2) by (subst windows.simps) simp
  next
    case False
    have w: "windows k xs = take k xs # windows k (drop k xs)"
      using False 1(2) by (subst windows.simps) simp
    have IH: "length (windows k (drop k xs)) = (length xs - k + k - 1) div k"
      using 1(1)[OF _ 1(2)] False 1(2) by simp
    show ?thesis
    proof (cases "k \<le> length xs")
      case True
      then have "(length xs + k - 1) div k = (length xs - k + k - 1) div k + 1"
      proof -
        have "length xs + k - 1 = (length xs - k + k - 1) + k" using True 1(2) by simp
        then show ?thesis using 1(2) by (simp only: div_add_self2)
      qed
      then show ?thesis using w IH by simp
    next
      case False
      moreover have "0 < length xs" using \<open>xs \<noteq> []\<close> by simp
      ultimately have "length xs - k + k - 1 < k" "length xs + k - 1 < 2 * k" "k \<le> length xs + k - 1"
        using 1(2) by arith+
      then have "(length xs - k + k - 1) div k = 0" "(length xs + k - 1) div k = 1"
        by (auto intro: div_nat_eqI)
      then show ?thesis using w IH by simp
    qed
  qed
qed

lemma windows_members:
  "w \<in> set (windows k xs) \<Longrightarrow> w \<noteq> [] \<and> set w \<subseteq> set xs"
proof (induction k xs rule: windows.induct)
  case (1 k xs)
  show ?case
  proof (cases "k = 0 \<or> xs = []")
    case True
    then show ?thesis using 1(2) by (subst (asm) windows.simps) simp
  next
    case False
    then have "w = take k xs \<or> w \<in> set (windows k (drop k xs))"
      using 1(2) by (subst (asm) windows.simps) auto
    then show ?thesis
    proof
      assume "w = take k xs"
      then show ?thesis using False by (auto dest: in_set_takeD)
    next
      assume "w \<in> set (windows k (drop k xs))"
      then have "w \<noteq> [] \<and> set w \<subseteq> set (drop k xs)" using 1(1) False by blast
      then show ?thesis by (auto dest: in_set_dropD)
    qed
  qed
qed

lemma transpose_rect_length:
  "w \<noteq> [] \<Longrightarrow> \<forall>v \<in> set w. length v = H \<Longrightarrow> length (transpose w) = H"
proof -
  assume a: "w \<noteq> []" "\<forall>v \<in> set w. length v = H"
  have "foldr (\<lambda>xs. max (length xs)) w 0 = H" using a
  proof (induction w)
    case Nil
    then show ?case by simp
  next
    case (Cons v w)
    then show ?case by (cases w) auto
  qed
  then show ?thesis by (simp add: length_transpose)
qed


lemma pool_plane_shape:
  assumes "plane \<noteq> []" "\<forall>v \<in> set plane. length v = H"
  shows "\<exists>p. pool_plane reduce 2 plane = Inr p \<and> length p = (length plane + 1) div 2
           \<and> (\<forall>v \<in> set p. length v = H)"
proof -
  let ?p = "map (\<lambda>w. map reduce (transpose w)) (windows 2 plane)"
  have "pool_plane reduce 2 plane = Inr ?p" using assms(1) by (simp add: pool_plane_def)
  moreover have "length ?p = (length plane + 1) div 2" by (simp add: windows_length)
  moreover have "\<forall>v \<in> set ?p. length v = H"
  proof
    fix v assume "v \<in> set ?p"
    then obtain w where w: "w \<in> set (windows 2 plane)" "v = map reduce (transpose w)" by auto
    then have "w \<noteq> []" "\<forall>u \<in> set w. length u = H"
      using windows_members[OF w(1)] assms(2) by auto
    then show "length v = H" using w(2) by (simp add: transpose_rect_length)
  qed
  ultimately show ?thesis by blast
qed

lemma pool_mode_shape:
  assumes "supported_mode mode" "plane \<noteq> []" "\<forall>v \<in> set plane. length v = H"
  shows "\<exists>p. pool_mode mode 2 plane = Inr p \<and> length p = (length plane + 1) div 2
           \<and> (\<forall>v \<in> set p. length v = H)"
proof -
  consider "mode = ''mean''" | "mode = ''max''" | "mode = ''min''"
    using assms(1) by (auto simp: supported_mode_def)
  then show ?thesis
  proof cases
    case 1
    then show ?thesis using pool_plane_shape[OF assms(2,3), of window_mean]
      by (simp add: pool_mode_def avg_pool2d_def)
  next
    case 2
    then show ?thesis using pool_plane_shape[OF assms(2,3), of window_max]
      by (simp add: pool_mode_def max_pool2d_def)
  next
    case 3
    have "map (map uminus) plane \<noteq> []" "\<forall>v \<in> set (map (map uminus) plane). length v = H"
      using assms(2,3) by auto
    from pool_plane_shape[OF this, of window_max]
    obtain p where "pool_plane window_max 2 (map (map uminus) plane) = Inr p"
      "length p = (length plane + 1) div 2" "\<forall>v \<in> set p. length v = H" by auto
    then show ?thesis using 3 by (simp add: pool_mode_def max_pool2d_def)
  qed
qed

lemma cls_prefix_shape:
  assumes "\<forall>m \<in> set t. length m = n \<and> (\<forall>v \<in> set m. P v)"
  shows "length (cls_prefix cfg t) = length t"
    and "\<forall>m \<in> set (cls_prefix cfg t).
           length m = (if separate_cls cfg then min 1 n + (if truncate_seq cfg then n - 1 else n) else n)
           \<and> (\<forall>v \<in> set m. P v)"
  using assms by (auto simp: cls_prefix_def dest: in_set_takeD in_set_butlastD)

lemma sequence_sum_all_Inr:
  assumes "\<forall>x \<in> set xs. \<exists>y. f x = Inr y \<and> Q y"
  shows "\<exists>ys. sequence_sum (map f xs) = Inr ys \<and> length ys = length xs \<and> (\<forall>y \<in> set ys. Q y)"
  using assms
proof (induction xs)
  case Nil
  then show ?case by simp
next
  case (Cons x xs)
  then obtain y ys where "f x = Inr y" "Q y" "sequence_sum (map f xs) = Inr ys"
    "length ys = length xs" "\<forall>y \<in> set ys. Q y" by auto
  then show ?case by simp
qed

lemma pooled_len_pos: "0 < n \<Longrightarrow> 0 < pooled_len cfg n"
  by (auto simp: pooled_len_def)

lemma pool_tensor3_shape:
  assumes "supported_mode mode" "has_shape3 t B n H" "0 < n"
  shows "\<exists>t'. pool_tensor cfg (Suc depth) (Tensor3 t) mode 2 = Inr (Tensor3 t')
           \<and> has_shape3 t' B (pooled_len cfg n) H"
proof -
  let ?n' = "if separate_cls cfg then min 1 n + (if truncate_seq cfg then n - 1 else n) else n"
  have t: "\<forall>m \<in> set t. length m = n \<and> (\<forall>v \<in> set m. length v = H)" "length t = B"
    using assms(2) by (auto simp: has_shape3_def)
  have c: "\<forall>m \<in> set (cls_prefix cfg t). length m = ?n' \<and> (\<forall>v \<in> set m. length v = H)"
    by (rule cls_prefix_shape(2)[OF t(1)])
  have n': "0 < ?n'" using assms(3) by auto
  have "\<forall>m \<in> set (cls_prefix cfg t). \<exists>p. pool_mode mode 2 m = Inr p
      \<and> (length p = pooled_len cfg n \<and> (\<forall>v \<in> set p. length v = H))"
  proof
    fix m assume m: "m \<in> set (cls_prefix cfg t)"
    then have "m \<noteq> []" "\<forall>v \<in> set m. length v = H" "length m = ?n'" using c n' by auto
    then show "\<exists>p. pool_mode mode 2 m = Inr p \<and> (length p = pooled_len cfg n \<and> (\<forall>v \<in> set p. length v = H))"
      using pool_mode_shape[OF assms(1), of m H] by (simp add: pooled_len_def)
  qed
  from sequence_sum_all_Inr[OF this]
  obtain t' where "sequence_sum (map (pool_mode mode 2) (cls_prefix cfg t)) = Inr t'"
    "length t' = length (cls_prefix cfg t)"
    "\<forall>p \<in> set t'. length p = pooled_len cfg n \<and> (\<forall>v \<in> set p. length v = H)" by blast
  then show ?thesis using t(2) cls_prefix_shape(1)[OF t(1)] by (simp add: has_shape3_def)
qed

lemma pool_hidden_shape:
  assumes "supported_mode (pooling_type cfg)" "has_shape3 t B n H" "0 < n"
  shows "\<exists>t'. pool_hidden cfg t = Inr t' \<and> has_shape3 t' B (pooled_len cfg n) H"
proof -
  obtain d where r: "recursion_limit = Suc d" by (cases recursion_limit) (simp_all add: recursion_limit_def)
  from pool_tensor3_shape[OF assms, of cfg d] show ?thesis
    by (auto simp: pool_hidden_def r)
qed

lemma pool_tensor2_rows:
  assumes "list_all (\<lambda>row. row \<noteq> []) a"
  shows "\<exists>a'. pool_tensor cfg (Suc depth) (Tensor2 a) ''min'' 2 = Inr (Tensor2 a')
           \<and> list_all (\<lambda>row. row \<noteq> []) a'"
proof -
  have "\<forall>row \<in> set (cls_prefix cfg a). \<exists>r. map_sum id (map hd) (pool_mode ''min'' 2 (map (\<lambda>x. [x]) row)) = Inr r
      \<and> r \<noteq> []"
  proof
    fix row assume "row \<in> set (cls_prefix cfg a)"
    then have ne: "row \<noteq> []" using assms by (auto simp: cls_prefix_def list_all_iff split: if_splits)
    have "map (\<lambda>x. [x]) row \<noteq> []" "\<forall>v \<in> set (map (\<lambda>x. [x]) row). length v = 1" using ne by auto
    from pool_mode_shape[OF _ this, of "''min''"]
    obtain p where p: "pool_mode ''min'' 2 (map (\<lambda>x. [x]) row) = Inr p"
      "length p = (length row + 1) div 2" by (auto simp: supported_mode_def)
    have "0 < length row" using ne by simp
    then have "0 < (length row + 1) div 2" by simp
    then have "p \<noteq> []" using p(2) by auto
    then show "\<exists>r. map_sum id (map hd) (pool_mode ''min'' 2 (map (\<lambda>x. [x]) row)) = Inr r \<and> r \<noteq> []"
      using p(1) by simp
  qed
  from sequence_sum_all_Inr[OF this] show ?thesis by (auto simp: list_all_iff)
qed

lemma pool_mask_ok:
  assumes "mask_rows_nonempty am"
  shows "\<exists>am'. pool_mask cfg am = Inr am' \<and> mask_rows_nonempty am'"
proof (cases am)
  case None
  obtain d where r: "recursion_limit = Suc d" by (cases recursion_limit) (simp_all add: recursion_limit_def)
  show ?thesis using None by (simp add: pool_mask_def r mask_rows_nonempty_def)
next
  case (Some a)
  obtain d where r: "recursion_limit = Suc d" by (cases recursion_limit) (simp_all add: recursion_limit_def)
  from pool_tensor2_rows[of a cfg d] Some assms show ?thesis
    by (auto simp: pool_mask_def r mask_rows_nonempty_def)
qed


lemma pre_attention_pooling_ok:
  assumes "supported_mode (pooling_type cfg)" "has_shape3 hidden B n H" "0 < n"
    and "mask_rows_nonempty (attention_mask ai)" "pooling_mult self = Some k"
  shows "\<exists>ph ai' self'. pre_attention_pooling cfg self hidden ai = (Inr (ph, ai'), self')
           \<and> has_shape3 ph B (pooled_len cfg n) H
           \<and> mask_rows_nonempty (attention_mask ai')
           \<and> pooling_mult self' = Some (if pool_q_only cfg then k else 2 * k)"
proof -
  obtain ph where ph: "pool_hidden cfg hidden = Inr ph" "has_shape3 ph B (pooled_len cfg n) H"
    using pool_hidden_shape[OF assms(1,2,3)] by blast
  obtain am' where am: "pool_mask cfg (attention_mask ai) = Inr am'" "mask_rows_nonempty am'"
    using pool_mask_ok[OF assms(4)] by blast
  show ?thesis
  proof (cases "pool_q_only cfg")
    case True
    then show ?thesis using ph assms(4,5) by (simp add: pre_attention_pooling_def Let_def)
  next
    case False
    then show ?thesis using ph am assms(5)
      by (simp add: pre_attention_pooling_def Let_def double_pooling_mult_def)
  qed
qed

lemma post_attention_pooling_ok:
  assumes "mask_rows_nonempty (attention_mask ai)" "pooling_mult self = Some k"
  shows "\<exists>ai' self'. post_attention_pooling cfg self ai = (Inr ai', self')
           \<and> mask_rows_nonempty (attention_mask ai')
           \<and> pooling_mult self' = Some (if pool_q_only cfg then 2 * k else k)"
proof -
  obtain am' where am: "pool_mask cfg (attention_mask ai) = Inr am'" "mask_rows_nonempty am'"
    using pool_mask_ok[OF assms(1)] by blast
  show ?thesis
  proof (cases "pool_q_only cfg")
    case True
    then show ?thesis using am assms(2)
      by (simp add: post_attention_pooling_def Let_def double_pooling_mult_def)
  next
    case False
    then show ?thesis using assms by (simp add: post_attention_pooling_def)
  qed
qed

lemma encoder_layer_keeps_shape:
  assumes "layers_keep_shape fns" "has_shape3 query d0 d1 d2"
  shows "\<exists>out. encoder_layer fns bi li query key v ai = Inr out \<and> has_shape3 out d0 d1 d2"
  using assms unfolding layers_keep_shape_def by blast

lemma decoder_layer_keeps_shape:
  assumes "layers_keep_shape fns" "has_shape3 query d0 d1 d2"
  shows "\<exists>out. decoder_layer fns li query key v ai = Inr out \<and> has_shape3 out d0 d1 d2"
  using assms unfolding layers_keep_shape_def by blast

lemma encoder_layers_plain:
  assumes "layers_keep_shape fns" "has_shape3 hidden B n H" "\<not> pf \<or> (0, 0) \<notin> set ixs"
  shows "\<exists>hidden' new. encoder_layers cfg fns ohs bi pf ph ixs (hidden, ai, hs) self
             = (Inr (hidden', ai, hs @ new), self)
           \<and> has_shape3 hidden' B n H
           \<and> length new = (if ohs then length ixs else 0)
           \<and> (\<forall>h \<in> set new. has_shape3 h B n H)"
  using assms(2,3)
proof (induction ixs arbitrary: hidden hs)
  case Nil
  then show ?case by simp
next
  case (Cons ix ixs)
  obtain li ri where ix: "ix = (li, ri)" by (cases ix)
  have np: "\<not> (ri = 0 \<and> li = 0 \<and> pf)" using Cons.prems(2) ix by auto
  obtain h where h: "encoder_layer fns bi li hidden hidden hidden ai = Inr h"
    and sh: "has_shape3 h B n H"
    using encoder_layer_keeps_shape[OF assms(1) Cons.prems(1)] by blast
  have step: "encoder_layer_step cfg fns ohs bi pf ph ix (hidden, ai, hs) self
      = (Inr (h, ai, if ohs then hs @ [h] else hs), self)"
    using np h by (auto simp: encoder_layer_step_def ix Let_def)
  have "\<not> pf \<or> (0, 0) \<notin> set ixs" using Cons.prems(2) by auto
  from Cons.IH[OF sh this, of "if ohs then hs @ [h] else hs"]
  obtain hidden' new where r:
    "encoder_layers cfg fns ohs bi pf ph ixs (h, ai, if ohs then hs @ [h] else hs) self
       = (Inr (hidden', ai, (if ohs then hs @ [h] else hs) @ new), self)"
    "has_shape3 hidden' B n H" "length new = (if ohs then length ixs else 0)"
    "\<forall>h \<in> set new. has_shape3 h B n H" by blast
  show ?case
  proof (intro exI[of _ hidden'] exI[of _ "if ohs then h # new else new"] conjI)
    show "encoder_layers cfg fns ohs bi pf ph (ix # ixs) (hidden, ai, hs) self
        = (Inr (hidden', ai, hs @ (if ohs then h # new else new)), self)"
      using step r(1) by simp
    show "has_shape3 hidden' B n H" by (rule r(2))
    show "length (if ohs then h # new else new) = (if ohs then length (ix # ixs) else 0)"
      using r(3) by simp
    show "\<forall>h' \<in> set (if ohs then h # new else new). has_shape3 h' B n H"
      using r(4) sh by simp
  qed
qed

lemma product_upt_head:
  assumes "0 < a" "0 < b"
  shows "\<exists>rest. List.product [0..<a] [0..<b] = (0, 0) # rest \<and> (0, 0) \<notin> set rest
           \<and> length rest = a * b - 1"
proof -
  have d: "distinct (List.product [0..<a] [0..<b])" by (simp add: distinct_product)
  have l: "length (List.product [0..<a] [0..<b]) = a * b" by simp
  have "[0..<a] = 0 # [1..<a]" "[0..<b] = 0 # [1..<b]" using assms by (simp_all add: upt_conv_Cons)
  then have "List.product [0..<a] [0..<b] = (0, 0) # (map (Pair 0) [1..<b] @ List.product [1..<a] [0..<b])"
    by simp
  then obtain rest where r: "List.product [0..<a] [0..<b] = (0, 0) # rest" by blast
  then have "(0, 0) \<notin> set rest" "length rest = a * b - 1" using d l by auto
  then show ?thesis using r by blast
qed


lemma shape1_has_shape3: "has_shape3 t B n H \<Longrightarrow> 0 < B \<Longrightarrow> shape1 t = n"
  by (cases t) (auto simp: has_shape3_def shape1_def first_len_def)

lemma encoder_block_unpooled:
  assumes keep: "layers_keep_shape fns" and sh: "has_shape3 hidden B n H" and B: "0 < B"
    and bi: "bi < length (block_repeats cfg)" and np: "n \<le> pool_threshold cfg \<or> bi = 0"
  shows "\<exists>hidden' new.
           encoder_block cfg fns ohs (bi, bs) (hidden, ai, hs) self = (Inr (hidden', ai, hs @ new), self)
           \<and> has_shape3 hidden' B n H"
proof -
  let ?ixs = "List.product [0..<bs] [0..<block_repeats cfg ! bi]"
  have pf: "((if separate_cls cfg then 2 else 1) < shape1 hidden \<and> 0 < bi) = False"
    using np shape1_has_shape3[OF sh B] by (auto simp: pool_threshold_def)
  from encoder_layers_plain[OF keep sh, of False ?ixs cfg ohs bi hidden ai hs self]
  obtain hidden' new where r:
    "encoder_layers cfg fns ohs bi False hidden ?ixs (hidden, ai, hs) self = (Inr (hidden', ai, hs @ new), self)"
    "has_shape3 hidden' B n H" by auto
  have "encoder_block cfg fns ohs (bi, bs) (hidden, ai, hs) self = (Inr (hidden', ai, hs @ new), self)"
    unfolding encoder_block_def Let_def prod.case pf using bi r(1) by simp
  then show ?thesis using r(2) by blast
qed

lemma encoder_block_ok:
  assumes keep: "layers_keep_shape fns" and mode: "supported_mode (pooling_type cfg)"
    and sh: "has_shape3 hidden B n H" and B: "0 < B" and n: "0 < n"
    and am: "mask_rows_nonempty (attention_mask ai)" and pm: "pooling_mult self = Some k"
    and bs: "0 < bs" and bi: "bi < length (block_repeats cfg)" and reps: "0 < block_repeats cfg ! bi"
  shows "\<exists>hidden' ai' new self'.
           encoder_block cfg fns ohs (bi, bs) (hidden, ai, hs) self = (Inr (hidden', ai', hs @ new), self')
           \<and> has_shape3 hidden' B (if pool_threshold cfg < n \<and> 0 < bi then pooled_len cfg n else n) H
           \<and> mask_rows_nonempty (attention_mask ai')
           \<and> pooling_mult self' = Some (if pool_threshold cfg < n \<and> 0 < bi then 2 * k else k)
           \<and> length new = (if ohs then bs * (block_repeats cfg ! bi) else 0)
           \<and> (\<forall>h \<in> set new.
                 has_shape3 h B (if pool_threshold cfg < n \<and> 0 < bi then pooled_len cfg n else n) H)"
proof (cases "pool_threshold cfg < n \<and> 0 < bi")
  case False
  let ?ixs = "List.product [0..<bs] [0..<block_repeats cfg ! bi]"
  have pf: "((if separate_cls cfg then 2 else 1) < shape1 hidden \<and> 0 < bi) = False"
    using False shape1_has_shape3[OF sh B] by (simp add: pool_threshold_def)
  from encoder_layers_plain[OF keep sh, of False ?ixs cfg ohs bi hidden ai hs self]
  obtain hidden' new where r:
    "encoder_layers cfg fns ohs bi False hidden ?ixs (hidden, ai, hs) self = (Inr (hidden', ai, hs @ new), self)"
    "has_shape3 hidden' B n H" "length new = (if ohs then length ?ixs else 0)"
    "\<forall>h \<in> set new. has_shape3 h B n H" by auto
  have "encoder_block cfg fns ohs (bi, bs) (hidden, ai, hs) self = (Inr (hidden', ai, hs @ new), self)"
    unfolding encoder_block_def Let_def prod.case pf using bi r(1) by simp
  then show ?thesis using False r(2,3,4) am pm by auto
next
  case True
  let ?n' = "pooled_len cfg n"
  have pf: "((if separate_cls cfg then 2 else 1) < shape1 hidden \<and> 0 < bi) = True"
    using True shape1_has_shape3[OF sh B] by (simp add: pool_threshold_def)
  obtain ph ai1 self1 where pre:
    "pre_attention_pooling cfg self hidden ai = (Inr (ph, ai1), self1)"
    "has_shape3 ph B ?n' H" "mask_rows_nonempty (attention_mask ai1)"
    "pooling_mult self1 = Some (if pool_q_only cfg then k else 2 * k)"
    using pre_attention_pooling_ok[OF mode sh n am pm] by blast
  obtain ai2 self2 where post:
    "post_attention_pooling cfg self1 ai1 = (Inr ai2, self2)"
    "mask_rows_nonempty (attention_mask ai2)"
    "pooling_mult self2 = Some (if pool_q_only cfg then 2 * (if pool_q_only cfg then k else 2 * k)
                                 else (if pool_q_only cfg then k else 2 * k))"
    using post_attention_pooling_ok[OF pre(3,4)] by blast
  have pm2: "pooling_mult self2 = Some (2 * k)" using post(3) by (simp split: if_splits)
  obtain rest where ixs: "List.product [0..<bs] [0..<block_repeats cfg ! bi] = (0, 0) # rest"
    "(0, 0) \<notin> set rest" "length rest = bs * (block_repeats cfg ! bi) - 1"
    using product_upt_head[OF bs reps] by blast
  let ?key = "if pool_q_only cfg then hidden else ph"
  obtain h where h: "encoder_layer fns bi 0 ph ?key ?key ai1 = Inr h"
    and shh: "has_shape3 h B ?n' H"
    using encoder_layer_keeps_shape[OF keep pre(2)] by blast
  have step: "encoder_layer_step cfg fns ohs bi True ph (0, 0) (hidden, ai1, hs) self1
      = (Inr (h, ai2, if ohs then hs @ [h] else hs), self2)"
    using post(1) h by (simp add: encoder_layer_step_def Let_def)
  from encoder_layers_plain[OF keep shh, of True rest cfg ohs bi ph ai2 "if ohs then hs @ [h] else hs" self2]
  obtain hidden' new where r:
    "encoder_layers cfg fns ohs bi True ph rest (h, ai2, if ohs then hs @ [h] else hs) self2
       = (Inr (hidden', ai2, (if ohs then hs @ [h] else hs) @ new), self2)"
    "has_shape3 hidden' B ?n' H" "length new = (if ohs then length rest else 0)"
    "\<forall>h \<in> set new. has_shape3 h B ?n' H" using ixs(2) by auto
  have pos: "0 < bs * (block_repeats cfg ! bi)" using bs reps by simp
  have "encoder_block cfg fns ohs (bi, bs) (hidden, ai, hs) self
      = (Inr (hidden', ai2, hs @ (if ohs then h # new else new)), self2)"
    unfolding encoder_block_def Let_def prod.case pf using bi pre(1) ixs(1) step r(1) by simp
  moreover have "length (if ohs then h # new else new) = (if ohs then bs * (block_repeats cfg ! bi) else 0)"
    using r(3) ixs(3) pos by simp
  moreover have "\<forall>h' \<in> set (if ohs then h # new else new). has_shape3 h' B ?n' H"
    using r(4) shh by simp
  ultimately show ?thesis using True r(2) post(2) pm2 by auto
qed


lemma encoder_blocks_pooled:
  assumes keep: "layers_keep_shape fns" and mode: "supported_mode (pooling_type cfg)" and B: "0 < B"
    and reps: "\<forall>r \<in> set (block_repeats cfg). 0 < r"
  shows "1 \<le> i \<Longrightarrow> has_shape3 hidden B m H \<Longrightarrow> 0 < m \<Longrightarrow>
         mask_rows_nonempty (attention_mask ai) \<Longrightarrow> pooling_mult self = Some k \<Longrightarrow>
         \<forall>s \<in> set sizes. 0 < s \<Longrightarrow> i + length sizes \<le> length (block_repeats cfg) \<Longrightarrow>
         \<forall>j < length sizes. pool_threshold cfg < (pooled_len cfg ^^ j) m \<Longrightarrow>
         \<exists>hidden' ai' hs' self'.
           encoder_blocks cfg fns ohs (enumerate i sizes) (hidden, ai, hs) self
             = (Inr (hidden', ai', hs'), self')
           \<and> has_shape3 hidden' B ((pooled_len cfg ^^ length sizes) m) H
           \<and> mask_rows_nonempty (attention_mask ai')
           \<and> pooling_mult self' = Some (k * 2 ^ length sizes)"
proof (induction sizes arbitrary: i hidden ai hs self m k)
  case Nil
  then show ?case by simp
next
  case (Cons s sizes)
  have i: "i < length (block_repeats cfg)" "0 < i" using Cons.prems(1,7) by simp_all
  then have r: "0 < block_repeats cfg ! i" using reps by simp
  have s: "0 < s" using Cons.prems(6) by simp
  have thr: "pool_threshold cfg < m" using Cons.prems(8) by fastforce
  from encoder_block_ok[OF keep mode Cons.prems(2) B Cons.prems(3,4,5) s i(1) r, of ohs hs]
  obtain hidden1 ai1 new self1 where b1:
    "encoder_block cfg fns ohs (i, s) (hidden, ai, hs) self = (Inr (hidden1, ai1, hs @ new), self1)"
    "has_shape3 hidden1 B (pooled_len cfg m) H" "mask_rows_nonempty (attention_mask ai1)"
    "pooling_mult self1 = Some (2 * k)"
    using thr i(2) by auto
  have rest: "\<forall>j < length sizes. pool_threshold cfg < (pooled_len cfg ^^ j) (pooled_len cfg m)"
  proof (intro allI impI)
    fix j assume "j < length sizes"
    then have "Suc j < length (s # sizes)" by simp
    then have "pool_threshold cfg < (pooled_len cfg ^^ Suc j) m" using Cons.prems(8) by blast
    then show "pool_threshold cfg < (pooled_len cfg ^^ j) (pooled_len cfg m)"
      by (simp add: funpow_swap1)
  qed
  have "1 \<le> Suc i" "0 < pooled_len cfg m" "\<forall>s \<in> set sizes. 0 < s"
    "Suc i + length sizes \<le> length (block_repeats cfg)"
    using Cons.prems(3,6,7) pooled_len_pos by simp_all
  from Cons.IH[OF this(1) b1(2) this(2) b1(3,4) this(3,4) rest, of "hs @ new"]
  obtain hidden' ai' hs' self' where r2:
    "encoder_blocks cfg fns ohs (enumerate (Suc i) sizes) (hidden1, ai1, hs @ new) self1
       = (Inr (hidden', ai', hs'), self')"
    "has_shape3 hidden' B ((pooled_len cfg ^^ length sizes) (pooled_len cfg m)) H"
    "mask_rows_nonempty (attention_mask ai')"
    "pooling_mult self' = Some (2 * k * 2 ^ length sizes)" by blast
  have "encoder_blocks cfg fns ohs (enumerate i (s # sizes)) (hidden, ai, hs) self
      = (Inr (hidden', ai', hs'), self')"
    using b1(1) r2(1) by simp
  moreover have "(pooled_len cfg ^^ length sizes) (pooled_len cfg m)
      = (pooled_len cfg ^^ length (s # sizes)) m" by (simp add: funpow_swap1)
  moreover have "2 * k * 2 ^ length sizes = k * 2 ^ length (s # sizes)" by simp
  ultimately show ?case using r2(2,3,4) by (metis (no_types, lifting))
qed

lemma init_attention_inputs_ok:
  assumes "has_shape3 x B n H" "0 < B" "0 < n"
  shows "\<exists>ai self'. init_attention_inputs cfg gpe self x am tti = (Inr ai, self')
           \<and> attention_mask ai = am \<and> pooling_mult self' = Some 1 \<and> seq_len self' = Some n"
  using assms(3) shape1_has_shape3[OF assms(1,2)]
  by (auto simp: init_attention_inputs_def init_cls_mask_def Let_def)

lemma encoder_prefix_ok:
  assumes keep: "layers_keep_shape fns" and mode: "supported_mode (pooling_type cfg)"
    and sh: "has_shape3 hidden B n H" and B: "0 < B" and n: "0 < n"
    and am: "mask_rows_nonempty (attention_mask ai)" and pm: "pooling_mult self = Some 1"
    and sizes: "\<forall>s \<in> set (block_sizes cfg). 0 < s"
    and len: "length (block_sizes cfg) \<le> length (block_repeats cfg)"
    and reps: "\<forall>r \<in> set (block_repeats cfg). 0 < r"
    and b: "b < length (block_sizes cfg)"
    and thr: "\<forall>j < b. pool_threshold cfg < (pooled_len cfg ^^ j) n"
  shows "\<exists>hidden' ai' hs' self'.
           encoder_blocks cfg fns ohs (enumerate 0 (take (Suc b) (block_sizes cfg))) (hidden, ai, hs) self
             = (Inr (hidden', ai', hs'), self')
           \<and> has_shape3 hidden' B ((pooled_len cfg ^^ b) n) H
           \<and> mask_rows_nonempty (attention_mask ai')
           \<and> pooling_mult self' = Some (2 ^ b)"
proof -
  obtain s0 rest where bsz: "block_sizes cfg = s0 # rest" using b by (cases "block_sizes cfg") auto
  have s0: "0 < s0" using sizes bsz by simp
  have r0: "0 < length (block_repeats cfg)" using len bsz by (cases "block_repeats cfg") simp_all
  then have r0': "0 < block_repeats cfg ! 0" using reps nth_mem by blast
  from encoder_block_ok[OF keep mode sh B n am pm s0 r0 r0', of ohs hs]
  obtain hidden1 ai1 new self1 where b0:
    "encoder_block cfg fns ohs (0, s0) (hidden, ai, hs) self = (Inr (hidden1, ai1, hs @ new), self1)"
    "has_shape3 hidden1 B n H" "mask_rows_nonempty (attention_mask ai1)"
    "pooling_mult self1 = Some 1" by auto
  have l: "length (take b rest) = b" using b bsz by simp
  have "\<forall>s \<in> set (take b rest). 0 < s" using sizes bsz by (auto dest: in_set_takeD)
  moreover have "1 + length (take b rest) \<le> length (block_repeats cfg)" using b len l by simp
  moreover have "\<forall>j < length (take b rest). pool_threshold cfg < (pooled_len cfg ^^ j) n"
    using thr l by simp
  ultimately obtain hidden' ai' hs' self' where r:
    "encoder_blocks cfg fns ohs (enumerate 1 (take b rest)) (hidden1, ai1, hs @ new) self1
       = (Inr (hidden', ai', hs'), self')"
    "has_shape3 hidden' B ((pooled_len cfg ^^ length (take b rest)) n) H"
    "mask_rows_nonempty (attention_mask ai')"
    "pooling_mult self' = Some (1 * 2 ^ length (take b rest))"
    using encoder_blocks_pooled[OF keep mode B reps _ b0(2) n b0(3,4), of 1 "take b rest" ohs "hs @ new"]
    by auto
  have "encoder_blocks cfg fns ohs (enumerate 0 (take (Suc b) (block_sizes cfg))) (hidden, ai, hs) self
      = (Inr (hidden', ai', hs'), self')"
    using b0(1) r(1) by (simp add: bsz)
  then show ?thesis using r(2,3,4) l by auto
qed


subsection \<open>The cumulative pooling stride\<close>

lemma mask_rows_nonempty_Some:
  "has_shape2 a B n \<Longrightarrow> 0 < n \<Longrightarrow> mask_rows_nonempty (Some a)"
  by (auto simp: mask_rows_nonempty_def has_shape2_def list_all_iff)

text \<open>
  C3 (as amended): consider a forward pass of the encoder in which every block has at
  least one layer and one repetition and in which the hidden sequence length on entry to
  each of the blocks \<open>1, ..., b\<close> is above the pooling threshold (2 with \<open>separate_cls\<close>, 1
  without).  Then \<open>pooling_mult\<close> is 1 after \<open>init_attention_inputs\<close> and \<open>2^b\<close> after the
  blocks \<open>0, ..., b\<close>, where the hidden state has been pooled \<open>b\<close> times.  It is doubled once
  per pooled block: by \<open>pre_attention_pooling\<close> when both sides pool, and only by
  \<open>post_attention_pooling\<close> under \<open>pool_q_only\<close>, so that after the \<open>pre_attention_pooling\<close>
  of block \<open>b\<close>, when its first layer attends from pooled queries to unpooled keys,
  \<open>pooling_mult\<close> is still \<open>2^(b-1)\<close>.  A block that is entered at or below the threshold,
  and block 0, are not pooled: they keep the sequence length and leave the attention
  structure, \<open>pooling_mult\<close> with it, unchanged.  When \<open>b\<close> is the last block, the whole
  \<open>FunnelEncoder.forward\<close> ends with \<open>pooling_mult\<close> equal to the decoder's upsampling
  stride.  That stride is \<open>2^(num_blocks-1)\<close>, and it is the stride that
  \<open>FunnelDecoder.forward\<close> passes to \<open>upsample\<close>.
\<close>

theorem encoder_pooling_mult_power:
  assumes keep: "layers_keep_shape fns" and mode: "supported_mode (pooling_type cfg)"
    and sh: "has_shape3 inputs_embeds B n H" and B: "0 < B" and n: "0 < n"
    and am: "has_shape2 am B n"
    and sizes: "\<forall>s \<in> set (block_sizes cfg). 0 < s"
    and len: "length (block_sizes cfg) \<le> length (block_repeats cfg)"
    and reps: "\<forall>r \<in> set (block_repeats cfg). 0 < r"
    and b: "b < num_blocks cfg"
    and thr: "\<forall>j < b. pool_threshold cfg < (pooled_len cfg ^^ j) n"
  shows "\<exists>ai self0.
           init_attention_inputs cfg (get_position_embeds fns) self inputs_embeds (Some am) token_type_ids
             = (Inr ai, self0)
           \<and> pooling_mult self0 = Some 1
           \<and> (\<exists>hidden' ai' hs' self'.
                 encoder_blocks cfg fns ohs (enumerate 0 (take (Suc b) (block_sizes cfg)))
                     (inputs_embeds, ai, hs) self0 = (Inr (hidden', ai', hs'), self')
                 \<and> has_shape3 hidden' B ((pooled_len cfg ^^ b) n) H
                 \<and> pooling_mult self' = Some (2 ^ b))
           \<and> (0 < b \<longrightarrow>
                (\<exists>hidden1 ai1 hs1 self1 pooled ai2 self2.
                   encoder_blocks cfg fns ohs (enumerate 0 (take b (block_sizes cfg)))
                       (inputs_embeds, ai, hs) self0 = (Inr (hidden1, ai1, hs1), self1)
                   \<and> pooling_mult self1 = Some (2 ^ (b - 1))
                   \<and> pre_attention_pooling cfg self1 hidden1 ai1 = (Inr (pooled, ai2), self2)
                   \<and> pooling_mult self2 = Some (if pool_q_only cfg then 2 ^ (b - 1) else 2 ^ b)))
           \<and> (\<forall>bi bs hidden m ai1 hs1 self1.
                 has_shape3 hidden B m H \<and> bi < length (block_repeats cfg)
                 \<and> (m \<le> pool_threshold cfg \<or> bi = 0) \<longrightarrow>
                 (\<exists>hidden' hs'.
                    encoder_block cfg fns ohs (bi, bs) (hidden, ai1, hs1) self1
                      = (Inr (hidden', ai1, hs'), self1)
                    \<and> has_shape3 hidden' B m H))
           \<and> (Suc b = num_blocks cfg \<longrightarrow>
                (\<exists>out self'.
                   encoder_forward cfg fns self inputs_embeds am token_type_ids ohs = (Inr out, self')
                   \<and> pooling_mult self' = Some (decoder_stride cfg)))
           \<and> decoder_stride cfg = 2 ^ (num_blocks cfg - 1)
           \<and> (\<forall>dself final first dam dtti dohs.
                 decoder_forward cfg fns dself final first dam dtti dohs
                   = (case upsample final (2 ^ (num_blocks cfg - 1)) (int (shape1 first))
                             (separate_cls cfg) (truncate_seq cfg) of
                        Inl e \<Rightarrow> (Inl e, dself)
                      | Inr up \<Rightarrow> decoder_after_upsample cfg fns dself up first dam dtti dohs))"
proof -
  obtain ai self0 where init:
    "init_attention_inputs cfg (get_position_embeds fns) self inputs_embeds (Some am) token_type_ids
       = (Inr ai, self0)"
    "attention_mask ai = Some am" "pooling_mult self0 = Some 1"
    using init_attention_inputs_ok[OF sh B n] by blast
  have mk: "mask_rows_nonempty (attention_mask ai)"
    using mask_rows_nonempty_Some[OF am n] init(2) by simp
  have b': "b < length (block_sizes cfg)" using b by (simp add: num_blocks_def)
  have run: "\<exists>hidden' ai' hs' self'.
      encoder_blocks cfg fns ohs (enumerate 0 (take (Suc b) (block_sizes cfg)))
        (inputs_embeds, ai, hs0) self0 = (Inr (hidden', ai', hs'), self')
      \<and> has_shape3 hidden' B ((pooled_len cfg ^^ b) n) H \<and> pooling_mult self' = Some (2 ^ b)" for hs0
    using encoder_prefix_ok[OF keep mode sh B n mk init(3) sizes len reps b' thr] by blast
  have cross: "\<exists>hidden1 ai1 hs1 self1 pooled ai2 self2.
       encoder_blocks cfg fns ohs (enumerate 0 (take b (block_sizes cfg)))
           (inputs_embeds, ai, hs) self0 = (Inr (hidden1, ai1, hs1), self1)
       \<and> pooling_mult self1 = Some (2 ^ (b - 1))
       \<and> pre_attention_pooling cfg self1 hidden1 ai1 = (Inr (pooled, ai2), self2)
       \<and> pooling_mult self2 = Some (if pool_q_only cfg then 2 ^ (b - 1) else 2 ^ b)"
    if bpos: "0 < b"
  proof -
    obtain c where c: "b = Suc c" using bpos by (cases b) auto
    have c': "c < length (block_sizes cfg)" using b' c by simp
    have thr': "\<forall>j < c. pool_threshold cfg < (pooled_len cfg ^^ j) n" using thr c by simp
    obtain hidden1 ai1 hs1 self1 where r1:
      "encoder_blocks cfg fns ohs (enumerate 0 (take (Suc c) (block_sizes cfg)))
          (inputs_embeds, ai, hs) self0 = (Inr (hidden1, ai1, hs1), self1)"
      "has_shape3 hidden1 B ((pooled_len cfg ^^ c) n) H"
      "mask_rows_nonempty (attention_mask ai1)" "pooling_mult self1 = Some (2 ^ c)"
      using encoder_prefix_ok[OF keep mode sh B n mk init(3) sizes len reps c' thr'] by blast
    have "pool_threshold cfg < (pooled_len cfg ^^ c) n" using thr c by simp
    then have pos: "0 < (pooled_len cfg ^^ c) n" by simp
    obtain pooled ai2 self2 where r2:
      "pre_attention_pooling cfg self1 hidden1 ai1 = (Inr (pooled, ai2), self2)"
      "pooling_mult self2 = Some (if pool_q_only cfg then 2 ^ c else 2 * 2 ^ c)"
      using pre_attention_pooling_ok[OF mode r1(2) pos r1(3,4)] by blast
    show ?thesis using r1(1,4) r2 c by auto
  qed
  have unpooled: "\<exists>hidden' hs'.
       encoder_block cfg fns ohs (bi, bs) (hidden, ai1, hs1) self1 = (Inr (hidden', ai1, hs'), self1)
       \<and> has_shape3 hidden' B m H"
    if "has_shape3 hidden B m H \<and> bi < length (block_repeats cfg) \<and> (m \<le> pool_threshold cfg \<or> bi = 0)"
    for bi bs hidden m ai1 hs1 self1
    using encoder_block_unpooled[OF keep _ B, of hidden m H bi cfg ohs bs ai1 hs1 self1] that by blast
  have stride: "decoder_stride cfg = 2 ^ (num_blocks cfg - 1)"
    by (simp add: decoder_stride_def num_blocks_def)
  have whole: "\<exists>out self'.
       encoder_forward cfg fns self inputs_embeds am token_type_ids ohs = (Inr out, self')
       \<and> pooling_mult self' = Some (decoder_stride cfg)"
    if last: "Suc b = num_blocks cfg"
  proof -
    have all: "take (Suc b) (block_sizes cfg) = block_sizes cfg"
      using last by (simp add: num_blocks_def)
    obtain hidden' ai' hs' self' where r:
      "encoder_blocks cfg fns ohs (enumerate 0 (block_sizes cfg))
         (inputs_embeds, ai, if ohs then [inputs_embeds] else []) self0 = (Inr (hidden', ai', hs'), self')"
      "pooling_mult self' = Some (2 ^ b)"
      using run[of "if ohs then [inputs_embeds] else []"] unfolding all by blast
    have "num_blocks cfg - 1 = b" using last by simp
    then show ?thesis using init(1) r stride by (simp add: encoder_forward_def)
  qed
  have ne: "block_sizes cfg \<noteq> []" using b' by auto
  have dec: "decoder_forward cfg fns dself final first dam dtti dohs
      = (case upsample final (2 ^ (num_blocks cfg - 1)) (int (shape1 first))
                (separate_cls cfg) (truncate_seq cfg) of
           Inl e \<Rightarrow> (Inl e, dself)
         | Inr up \<Rightarrow> decoder_after_upsample cfg fns dself up first dam dtti dohs)"
    for dself final first dam dtti dohs
    unfolding decoder_forward_def stride using ne by simp
  show ?thesis
  proof (intro exI[of _ ai] exI[of _ self0] conjI impI allI)
    show "init_attention_inputs cfg (get_position_embeds fns) self inputs_embeds (Some am) token_type_ids
             = (Inr ai, self0)" by (rule init(1))
    show "pooling_mult self0 = Some 1" by (rule init(3))
    show "\<exists>hidden' ai' hs' self'.
                 encoder_blocks cfg fns ohs (enumerate 0 (take (Suc b) (block_sizes cfg)))
                     (inputs_embeds, ai, hs) self0 = (Inr (hidden', ai', hs'), self')
                 \<and> has_shape3 hidden' B ((pooled_len cfg ^^ b) n) H
                 \<and> pooling_mult self' = Some (2 ^ b)" by (rule run)
    show "decoder_stride cfg = 2 ^ (num_blocks cfg - 1)" by (rule stride)
  qed (use cross unpooled whole dec in blast)+
qed


lemma layers_keep_shape_id_fns: "layers_keep_shape id_fns"
  by (simp add: layers_keep_shape_def id_fns_def)

theorem encoder_pooling_mult_power_witness:
  "layers_keep_shape id_fns
   \<and> (\<exists>ai self0.
         init_attention_inputs cfg_cls (get_position_embeds id_fns) fresh_structure
             [[[1], [2], [3], [4], [5], [6], [7], [8], [9]]]
             (Some [[1, 1, 1, 1, 1, 1, 1, 1, 1]]) None = (Inr ai, self0)
         \<and> pooling_mult self0 = Some 1
         \<and> (\<exists>hidden' ai' hs' self'.
               encoder_blocks cfg_cls id_fns False (enumerate 0 (take (Suc 1) (block_sizes cfg_cls)))
                   ([[[1], [2], [3], [4], [5], [6], [7], [8], [9]]], ai, []) self0
                 = (Inr (hidden', ai', hs'), self')
               \<and> has_shape3 hidden' 1 5 1
               \<and> pooling_mult self' = Some 2)
         \<and> (\<exists>hidden' hs'.
               encoder_block cfg_cls id_fns False (1, 2) ([[[1], [2]]], ai, []) self0
                 = (Inr (hidden', ai, hs'), self0)
               \<and> has_shape3 hidden' 1 2 1))
   \<and> (\<exists>out self'.
         encoder_forward cfg_cls id_fns fresh_structure
             [[[1], [2], [3], [4], [5], [6], [7], [8], [9]]]
             [[1, 1, 1, 1, 1, 1, 1, 1, 1]] None False = (Inr out, self')
         \<and> pooling_mult self' = Some 2)
   \<and> decoder_stride cfg_cls = 2"
proof -
  have sh: "has_shape3 [[[1], [2], [3], [4], [5], [6], [7], [8], [9 :: real]]] 1 9 1"
    by (simp add: has_shape3_def)
  have am: "has_shape2 [[1, 1, 1, 1, 1, 1, 1, 1, 1 :: real]] 1 9" by (simp add: has_shape2_def)
  have mode: "supported_mode (pooling_type cfg_cls)" by (simp add: supported_mode_def cfg_cls_def)
  have sizes: "\<forall>s \<in> set (block_sizes cfg_cls). 0 < s" by (simp add: cfg_cls_def)
  have len: "length (block_sizes cfg_cls) \<le> length (block_repeats cfg_cls)" by (simp add: cfg_cls_def)
  have reps: "\<forall>r \<in> set (block_repeats cfg_cls). 0 < r" by (simp add: cfg_cls_def)
  have b: "1 < num_blocks cfg_cls" by (simp add: num_blocks_def cfg_cls_def)
  have thr: "\<forall>j < 1. pool_threshold cfg_cls < (pooled_len cfg_cls ^^ j) 9"
    by (simp add: pool_threshold_def cfg_cls_def)
  have p: "(pooled_len cfg_cls ^^ 1) 9 = 5" by (simp add: pooled_len_def cfg_cls_def)
  have nb: "num_blocks cfg_cls - 1 = 1" "Suc 1 = num_blocks cfg_cls"
    by (simp_all add: num_blocks_def cfg_cls_def)
  have short: "has_shape3 [[[1], [2 :: real]]] 1 2 1 \<and> 1 < length (block_repeats cfg_cls)
      \<and> (2 \<le> pool_threshold cfg_cls \<or> (1 :: nat) = 0)"
    by (simp add: has_shape3_def cfg_cls_def pool_threshold_def)
  from encoder_pooling_mult_power [OF layers_keep_shape_id_fns mode sh _ _ am sizes len reps b thr,
      of fresh_structure None False "[]"]
  obtain ai self0 where t:
    "init_attention_inputs cfg_cls (get_position_embeds id_fns) fresh_structure
             [[[1], [2], [3], [4], [5], [6], [7], [8], [9]]]
             (Some [[1, 1, 1, 1, 1, 1, 1, 1, 1]]) None = (Inr ai, self0)"
    "pooling_mult self0 = Some 1"
    "\<exists>hidden' ai' hs' self'.
               encoder_blocks cfg_cls id_fns False (enumerate 0 (take (Suc 1) (block_sizes cfg_cls)))
                   ([[[1], [2], [3], [4], [5], [6], [7], [8], [9]]], ai, []) self0
                 = (Inr (hidden', ai', hs'), self')
               \<and> has_shape3 hidden' 1 ((pooled_len cfg_cls ^^ 1) 9) 1
               \<and> pooling_mult self' = Some (2 ^ 1)"
    "\<forall>bi bs hidden m ai1 hs1 self1.
                 has_shape3 hidden 1 m 1 \<and> bi < length (block_repeats cfg_cls)
                 \<and> (m \<le> pool_threshold cfg_cls \<or> bi = 0) \<longrightarrow>
                 (\<exists>hidden' hs'.
                    encoder_block cfg_cls id_fns False (bi, bs) (hidden, ai1, hs1) self1
                      = (Inr (hidden', ai1, hs'), self1)
                    \<and> has_shape3 hidden' 1 m 1)"
    "Suc 1 = num_blocks cfg_cls \<longrightarrow>
                (\<exists>out self'.
                   encoder_forward cfg_cls id_fns fresh_structure
                      [[[1], [2], [3], [4], [5], [6], [7], [8], [9]]]
                      [[1, 1, 1, 1, 1, 1, 1, 1, 1]] None False = (Inr out, self')
                   \<and> pooling_mult self' = Some (decoder_stride cfg_cls))"
    "decoder_stride cfg_cls = 2 ^ (num_blocks cfg_cls - 1)"
    by auto
  have u: "\<exists>hidden' hs'.
               encoder_block cfg_cls id_fns False (1, 2) ([[[1], [2]]], ai, []) self0
                 = (Inr (hidden', ai, hs'), self0)
               \<and> has_shape3 hidden' 1 2 1"
    using t(4) short by blast
  have d: "decoder_stride cfg_cls = 2" using t(6) nb(1) by simp
  show ?thesis using layers_keep_shape_id_fns t(1,2,3,5) u d nb(2) unfolding p by auto
qed

text \<open>
  The claim as stated covers every sequence length.  With two blocks, \<open>separate_cls\<close> and
  sequence length 2 the second block is entered at the threshold, is not pooled, and
  \<open>pooling_mult\<close> is 1 after it, not \<open>2^1\<close>.
\<close>

theorem encoder_pooling_mult_short_counterexample:
  "snd (encoder_forward cfg_cls id_fns fresh_structure [[[1], [2]]] [[1, 1]] None False)
     = \<lparr>pooling_mult = Some 1, seq_len = Some 2\<rparr>
   \<and> length (block_sizes cfg_cls) = 2
   \<and> Some (1 :: nat) \<noteq> Some (2 ^ 1)"
  by code_simp


subsection \<open>Sequence lengths through encoder and decoder\<close>

lemma broadcast2_same_length:
  assumes "length xs = length ys"
    and "\<forall>p \<in> set (zip xs ys). \<exists>c. f (fst p) (snd p) = Inr c \<and> Q c"
  shows "\<exists>zs. broadcast2 f xs ys = Inr zs \<and> length zs = length xs \<and> (\<forall>z \<in> set zs. Q z)"
proof -
  have "\<forall>p \<in> set (zip xs ys). \<exists>c. (\<lambda>(a, b). f a b) p = Inr c \<and> Q c"
    using assms(2) by (auto simp: split_def)
  from sequence_sum_all_Inr[OF this]
  obtain zs where "sequence_sum (map (\<lambda>(a, b). f a b) (zip xs ys)) = Inr zs"
    "length zs = length (zip xs ys)" "\<forall>z \<in> set zs. Q z" by blast
  then show ?thesis using assms(1) by (simp add: broadcast2_def)
qed

lemma tensor_add_same_shape:
  assumes "has_shape3 x B n H" "has_shape3 y B n H"
  shows "\<exists>z. tensor_add x y = Inr z \<and> has_shape3 z B n H"
proof -
  have vec: "\<exists>w. broadcast2 (\<lambda>a b. Inr (a + b) :: error + real) u v = Inr w \<and> length w = H"
    if "length u = H" "length v = H" for u v
    using broadcast2_same_length[of u v "\<lambda>a b. Inr (a + b)" "\<lambda>_. True"] that by auto
  have mat: "\<exists>q. broadcast2 (broadcast2 (\<lambda>a b. Inr (a + b) :: error + real)) p r = Inr q
      \<and> (length q = n \<and> (\<forall>w \<in> set q. length w = H))"
    if "length p = n" "\<forall>u \<in> set p. length u = H" "length r = n" "\<forall>v \<in> set r. length v = H" for p r
  proof -
    have "\<forall>e \<in> set (zip p r). \<exists>w. broadcast2 (\<lambda>a b. Inr (a + b) :: error + real) (fst e) (snd e) = Inr w
        \<and> length w = H"
    proof
      fix e assume "e \<in> set (zip p r)"
      then have "fst e \<in> set p" "snd e \<in> set r"
        by (metis prod.collapse set_zip_leftD set_zip_rightD)+
      then have "length (fst e) = H" "length (snd e) = H" using that(2,4) by auto
      then show "\<exists>w. broadcast2 (\<lambda>a b. Inr (a + b) :: error + real) (fst e) (snd e) = Inr w \<and> length w = H"
        by (rule vec)
    qed
    from broadcast2_same_length[OF _ this] that(1,3) show ?thesis by auto
  qed
  have "\<forall>e \<in> set (zip x y). \<exists>q. broadcast2 (broadcast2 (\<lambda>a b. Inr (a + b) :: error + real)) (fst e) (snd e) = Inr q
      \<and> (length q = n \<and> (\<forall>w \<in> set q. length w = H))"
  proof
    fix e assume "e \<in> set (zip x y)"
    then have "fst e \<in> set x" "snd e \<in> set y"
      by (metis prod.collapse set_zip_leftD set_zip_rightD)+
    then show "\<exists>q. broadcast2 (broadcast2 (\<lambda>a b. Inr (a + b) :: error + real)) (fst e) (snd e) = Inr q
      \<and> (length q = n \<and> (\<forall>w \<in> set q. length w = H))"
      using assms by (intro mat) (auto simp: has_shape3_def)
  qed
  from broadcast2_same_length[OF _ this] assms show ?thesis
    by (auto simp: tensor_add_def has_shape3_def)
qed

lemma decoder_layers_shape:
  assumes "layers_keep_shape fns"
  shows "has_shape3 hidden B n H \<Longrightarrow>
     \<exists>hidden' hs'. decoder_layers fns ohs ai ls (hidden, hs) = Inr (hidden', hs')
        \<and> has_shape3 hidden' B n H"
proof (induction ls arbitrary: hidden hs)
  case Nil
  then show ?case by simp
next
  case (Cons l ls)
  obtain h where h: "decoder_layer fns l hidden hidden hidden ai = Inr h"
    and sh: "has_shape3 h B n H"
    using decoder_layer_keeps_shape[OF assms Cons.prems] by blast
  from Cons.IH[OF sh] show ?case using h by simp
qed

lemma repeat_interleave_props:
  "length (repeat_interleave s xs) = length xs * s" "set (repeat_interleave s xs) \<subseteq> set xs"
  by (induction xs) (auto simp: repeat_interleave_def)

lemma upsample_shape:
  assumes sh: "has_shape3 x B m H" and m: "0 < m" and s: "2 \<le> s"
    and t: "0 < t" "t - 1 \<le> (m - 1) * s"
  shows "\<exists>up. upsample x s (int t) True ts = Inr up \<and> has_shape3 up B t H"
proof -
  have rows: "\<forall>row \<in> set x. length row = m \<and> (\<forall>v \<in> set row. length v = H)" "length x = B"
    using sh by (auto simp: has_shape3_def)
  let ?out = "map (repeat_interleave s) (map (drop 1) x)"
  have out: "\<forall>r \<in> set ?out. length r = (m - 1) * s \<and> (\<forall>v \<in> set r. length v = H)"
  proof
    fix r assume "r \<in> set ?out"
    then obtain row where row: "row \<in> set x" "r = repeat_interleave s (drop 1 row)" by auto
    have "length r = (m - 1) * s" using row rows(1) by (simp add: repeat_interleave_props(1))
    moreover have "set r \<subseteq> set row"
      using row(2) repeat_interleave_props(2)[of s "drop 1 row"] set_drop_subset[of 1 row] by blast
    ultimately show "length r = (m - 1) * s \<and> (\<forall>v \<in> set r. length v = H)"
      using rows(1) row(1) by blast
  qed
  have "\<exists>out'. (if ts then sequence_sum (map (pad_seq_end (int s - 1)) ?out) else Inr ?out) = Inr out'
      \<and> length out' = B
      \<and> (\<forall>r \<in> set out'. (m - 1) * s \<le> length r \<and> (\<forall>v \<in> set (take ((m - 1) * s) r). length v = H))"
  proof (cases ts)
    case False
    then show ?thesis using out rows(2) by (auto dest: in_set_takeD)
  next
    case True
    have "\<forall>r \<in> set ?out. \<exists>r'. pad_seq_end (int s - 1) r = Inr r'
        \<and> ((m - 1) * s \<le> length r' \<and> (\<forall>v \<in> set (take ((m - 1) * s) r'). length v = H))"
    proof
      fix r assume r: "r \<in> set ?out"
      then have l: "length r = (m - 1) * s" "\<forall>v \<in> set r. length v = H" using out by auto
      have "pad_seq_end (int s - 1) r
          = Inr (r @ replicate (nat (int s - 1)) (map (\<lambda>_. 0) (case r of [] \<Rightarrow> [] | v # _ \<Rightarrow> v)))"
        using s by (simp add: pad_seq_end_def)
      then show "\<exists>r'. pad_seq_end (int s - 1) r = Inr r'
        \<and> ((m - 1) * s \<le> length r' \<and> (\<forall>v \<in> set (take ((m - 1) * s) r'). length v = H))"
        using l by simp
    qed
    from sequence_sum_all_Inr[OF this] True rows(2) show ?thesis by auto
  qed
  then obtain out' where o:
    "(if ts then sequence_sum (map (pad_seq_end (int s - 1)) ?out) else Inr ?out) = Inr out'"
    "length out' = B"
    "\<forall>r \<in> set out'. (m - 1) * s \<le> length r \<and> (\<forall>v \<in> set (take ((m - 1) * s) r). length v = H)"
    by blast
  let ?up = "map2 (\<lambda>c out. c @ slice_to (int t - 1) out) (map (take 1) x) out'"
  have up: "upsample x s (int t) True ts = Inr ?up"
    unfolding upsample_def Let_def o(1) using s by simp
  have "length ?up = B" using o(2) rows(2) by simp
  moreover have "\<forall>r \<in> set ?up. length r = t \<and> (\<forall>v \<in> set r. length v = H)"
  proof
    fix r assume "r \<in> set ?up"
    then obtain c out where co: "(c, out) \<in> set (zip (map (take 1) x) out')"
      "r = c @ slice_to (int t - 1) out" by auto
    then have c: "c \<in> set (map (take 1) x)" and ou: "out \<in> set out'"
      by (auto dest: set_zip_leftD set_zip_rightD)
    from c obtain row where row: "row \<in> set x" "c = take 1 row" by auto
    then have lc: "length c = 1" "\<forall>v \<in> set c. length v = H"
      using rows(1) m by (auto dest: in_set_takeD)
    have st: "slice_to (int t - 1) out = take (t - 1) out" using t(1) by (simp add: slice_to_def nat_diff_distrib')
    have lo: "(m - 1) * s \<le> length out" "\<forall>v \<in> set (take ((m - 1) * s) out). length v = H"
      using o(3) ou by auto
    have "take (t - 1) out = take (t - 1) (take ((m - 1) * s) out)" using t(2) by (simp add: min_def)
    then have "\<forall>v \<in> set (take (t - 1) out). length v = H" using lo(2) by (metis in_set_takeD)
    moreover have "length (take (t - 1) out) = t - 1" using lo(1) t(2) by simp
    ultimately show "length r = t \<and> (\<forall>v \<in> set r. length v = H)"
      using co(2) lc st t(1) by auto
  qed
  ultimately show ?thesis using up by (auto simp: has_shape3_def)
qed

lemma shape1_has_shape2: "has_shape2 t B n \<Longrightarrow> 0 < B \<Longrightarrow> shape1 t = n"
  by (cases t) (auto simp: has_shape2_def shape1_def first_len_def)

lemma pooled_len_nine: "separate_cls cfg \<Longrightarrow> pooled_len cfg 9 = 5"
  by (simp add: pooled_len_def)

lemma encoder_forward_two_blocks:
  assumes keep: "layers_keep_shape fns" and mode: "supported_mode (pooling_type cfg)"
    and bs: "block_sizes cfg = [2, 2]" and cls: "separate_cls cfg"
    and len: "2 \<le> length (block_repeats cfg)" and reps: "\<forall>r \<in> set (block_repeats cfg). 0 < r"
    and B: "0 < B" and sh: "has_shape3 x B 9 H" and am: "has_shape2 m B 9"
  shows "\<exists>final hs enc. encoder_forward cfg fns self x m tti ohs
             = (Inr (final, if ohs then Some hs else None), enc)
           \<and> has_shape3 final B 5 H
           \<and> (ohs \<longrightarrow> 2 < length hs \<and> has_shape3 (hs ! 2) B 9 H)"
proof -
  let ?hs0 = "if ohs then [x] else []"
  obtain ai self0 where init:
    "init_attention_inputs cfg (get_position_embeds fns) self x (Some m) tti = (Inr ai, self0)"
    "attention_mask ai = Some m" "pooling_mult self0 = Some 1"
    using init_attention_inputs_ok[OF sh B] by (metis zero_less_numeral)
  have mk: "mask_rows_nonempty (attention_mask ai)"
    using mask_rows_nonempty_Some[OF am] init(2) by simp
  have l0: "0 < length (block_repeats cfg)" and l1: "1 < length (block_repeats cfg)"
    using len by linarith+
  have r0: "0 < length (block_repeats cfg)" "0 < block_repeats cfg ! 0"
    using l0 reps nth_mem[OF l0] by blast+
  have r1: "1 < length (block_repeats cfg)" "0 < block_repeats cfg ! 1"
    using l1 reps nth_mem[OF l1] by blast+
  from encoder_block_ok[OF keep mode sh B _ mk init(3) _ r0, of 2 ohs ?hs0]
  obtain h1 ai1 new0 self1 where b0:
    "encoder_block cfg fns ohs (0, 2) (x, ai, ?hs0) self0 = (Inr (h1, ai1, ?hs0 @ new0), self1)"
    "has_shape3 h1 B 9 H" "mask_rows_nonempty (attention_mask ai1)" "pooling_mult self1 = Some 1"
    "length new0 = (if ohs then 2 * (block_repeats cfg ! 0) else 0)"
    "\<forall>h \<in> set new0. has_shape3 h B 9 H" by auto
  have thr: "pool_threshold cfg < 9 \<and> 0 < (1 :: nat)" using cls by (simp add: pool_threshold_def)
  from encoder_block_ok[OF keep mode b0(2) B _ b0(3,4) _ r1, of 2 ohs "?hs0 @ new0"]
  obtain h2 ai2 new1 self2 where b1:
    "encoder_block cfg fns ohs (1, 2) (h1, ai1, ?hs0 @ new0) self1
       = (Inr (h2, ai2, (?hs0 @ new0) @ new1), self2)"
    "has_shape3 h2 B (pooled_len cfg 9) H" using thr by auto
  have run: "encoder_blocks cfg fns ohs (enumerate 0 (block_sizes cfg)) (x, ai, ?hs0) self0
      = (Inr (h2, ai2, (?hs0 @ new0) @ new1), self2)"
    using b0(1) b1(1) by (simp add: bs)
  have fw: "encoder_forward cfg fns self x m tti ohs
      = (Inr (h2, if ohs then Some ((?hs0 @ new0) @ new1) else None), self2)"
    using init(1) run by (simp add: encoder_forward_def)
  have "2 < length ((?hs0 @ new0) @ new1) \<and> has_shape3 (((?hs0 @ new0) @ new1) ! 2) B 9 H" if ohs
  proof -
    have l: "2 \<le> length new0" using b0(5) r0(2) that by simp
    then have "((?hs0 @ new0) @ new1) ! 2 = new0 ! 1" using that by (simp add: nth_append)
    moreover have "new0 ! 1 \<in> set new0" using l by simp
    ultimately show ?thesis using b0(6) l that by auto
  qed
  then show ?thesis using fw b1(2) pooled_len_nine[OF cls] by auto
qed

lemma decoder_forward_ok:
  assumes keep: "layers_keep_shape fns" and cls: "separate_cls cfg"
    and st: "2 \<le> decoder_stride cfg" and ne: "block_sizes cfg \<noteq> []"
    and B: "0 < B" and fin: "has_shape3 final B m H" and m: "0 < m"
    and fb: "has_shape3 first B t H" and t: "0 < t" "t - 1 \<le> (m - 1) * decoder_stride cfg"
  shows "\<exists>out hs self'. decoder_forward cfg fns self final first am tti ohs = (Inr (out, hs), self')
           \<and> has_shape3 out B t H"
proof -
  have t1: "shape1 first = t" by (rule shape1_has_shape3[OF fb B])
  obtain up where up: "upsample final (decoder_stride cfg) (int t) True (truncate_seq cfg) = Inr up"
    "has_shape3 up B t H" using upsample_shape[OF fin m st t] by blast
  obtain hidden where add: "tensor_add up first = Inr hidden" "has_shape3 hidden B t H"
    using tensor_add_same_shape[OF up(2) fb] by blast
  obtain ai self' where init:
    "init_attention_inputs cfg (get_position_embeds fns) self hidden am tti = (Inr ai, self')"
    using init_attention_inputs_ok[OF add(2) B t(1)] by blast
  obtain out hs where dl:
    "decoder_layers fns ohs ai [0..<num_decoder_layers cfg] (hidden, if ohs then [hidden] else [])
       = Inr (out, hs)" "has_shape3 out B t H"
    using decoder_layers_shape[OF keep add(2)] by blast
  show ?thesis using ne cls t1 up(1) add(1) init dl
    by (simp add: decoder_forward_def decoder_after_upsample_def)
qed


text \<open>
  C4 (as amended): for a configuration with \<open>block_sizes = [2, 2]\<close> (two blocks) and
  \<open>separate_cls=True\<close>, with any supported pooling type, either attention type and at least
  one repetition per block, any \<open>FunnelModel\<close> forward pass on a batch of sequence length 9
  (given as token ids or as embeddings) succeeds; its encoder produces a last hidden state
  of sequence length 5 (the two blocks pool once, 9 to 5), and the decoder output has
  sequence length 9 again.
\<close>

theorem funnel_model_two_blocks_lengths:
  assumes keep: "layers_keep_shape fns" and emb: "embeddings_keep_shape fns H"
    and mode: "supported_mode (pooling_type cfg)"
    and bs: "block_sizes cfg = [2, 2]" and cls: "separate_cls cfg"
    and len: "2 \<le> length (block_repeats cfg)" and reps: "\<forall>r \<in> set (block_repeats cfg). 0 < r"
    and B: "0 < B"
    and input: "input_ids = Some ids \<and> inputs_embeds = None \<and> has_shape2 ids B 9
              \<or> input_ids = None \<and> inputs_embeds = Some e \<and> has_shape3 e B 9 H"
    and mask: "case am of None \<Rightarrow> True | Some a \<Rightarrow> has_shape2 a B 9"
  shows "\<exists>x. embeddings_forward fns input_ids inputs_embeds = Inr x
       \<and> (\<forall>self m tti ohs'. has_shape2 m B 9 \<longrightarrow>
            (\<exists>final hs enc. encoder_forward cfg fns self x m tti ohs' = (Inr (final, hs), enc)
               \<and> has_shape3 final B 5 H \<and> shape1 final = 5))
       \<and> (\<exists>out st'. FunnelModel_forward cfg fns st input_ids am token_type_ids inputs_embeds ohs
               = (Inr out, st')
             \<and> has_shape3 (last_hidden_state out) B 9 H \<and> shape1 (last_hidden_state out) = 9)"
proof -
  have "\<exists>x. embeddings_forward fns input_ids inputs_embeds = Inr x \<and> has_shape3 x B 9 H
      \<and> input_shape_of input_ids inputs_embeds = (B, 9)
      \<and> \<not> (input_ids \<noteq> None \<and> inputs_embeds \<noteq> None) \<and> \<not> (input_ids = None \<and> inputs_embeds = None)"
    using input
  proof
    assume a: "input_ids = Some ids \<and> inputs_embeds = None \<and> has_shape2 ids B 9"
    then obtain w where w: "word_embeddings fns ids = Inr w" "has_shape3 w B 9 H"
      using emb unfolding embeddings_keep_shape_def by blast
    then obtain x where "embed_norm fns w = Inr x" "has_shape3 x B 9 H"
      using emb unfolding embeddings_keep_shape_def by blast
    moreover have "length ids = B" "shape1 ids = 9"
      using a shape1_has_shape2[OF _ B] by (auto simp: has_shape2_def)
    ultimately show ?thesis using a w(1) by (simp add: embeddings_forward_def input_shape_of_def)
  next
    assume a: "input_ids = None \<and> inputs_embeds = Some e \<and> has_shape3 e B 9 H"
    then obtain x where "embed_norm fns e = Inr x" "has_shape3 x B 9 H"
      using emb unfolding embeddings_keep_shape_def by blast
    moreover have "length e = B" "shape1 e = 9"
      using a shape1_has_shape3[OF _ B] by (auto simp: has_shape3_def)
    ultimately show ?thesis using a by (simp add: embeddings_forward_def input_shape_of_def)
  qed
  then obtain x where x: "embeddings_forward fns input_ids inputs_embeds = Inr x"
    "has_shape3 x B 9 H" "input_shape_of input_ids inputs_embeds = (B, 9)"
    "\<not> (input_ids \<noteq> None \<and> inputs_embeds \<noteq> None)" "\<not> (input_ids = None \<and> inputs_embeds = None)"
    by blast
  have enc: "\<exists>final hs enc. encoder_forward cfg fns self x m tti ohs' = (Inr (final, hs), enc)
               \<and> has_shape3 final B 5 H \<and> shape1 final = 5"
    if "has_shape2 m B 9" for self m tti ohs'
    using encoder_forward_two_blocks[OF keep mode bs cls len reps B x(2) that, of self tti ohs']
      shape1_has_shape3[OF _ B] by blast
  let ?am = "case am of None \<Rightarrow> replicate B (replicate 9 1) | Some a \<Rightarrow> a"
  let ?tti = "case token_type_ids of None \<Rightarrow> replicate B (replicate 9 0) | Some t \<Rightarrow> t"
  have am: "has_shape2 ?am B 9" using mask by (auto simp: has_shape2_def split: option.splits)
  obtain final hs enc where e:
    "encoder_forward cfg fns (encoder_structure st) x ?am (Some ?tti) True = (Inr (final, Some hs), enc)"
    "has_shape3 final B 5 H" "2 < length hs" "has_shape3 (hs ! 2) B 9 H"
    using encoder_forward_two_blocks[OF keep mode bs cls len reps B x(2) am,
        of "encoder_structure st" "Some ?tti" True] by auto
  have stride: "decoder_stride cfg = 2" by (simp add: decoder_stride_def bs)
  have "\<exists>out dhs dec. decoder_forward cfg fns (decoder_structure st) final (hs ! 2) (Some ?am) (Some ?tti) ohs
      = (Inr (out, dhs), dec) \<and> has_shape3 out B 9 H"
    by (rule decoder_forward_ok[OF keep cls _ _ B e(2) _ e(4)]) (simp_all add: stride bs)
  then obtain out dhs dec where d:
    "decoder_forward cfg fns (decoder_structure st) final (hs ! 2) (Some ?am) (Some ?tti) ohs
      = (Inr (out, dhs), dec)" "has_shape3 out B 9 H" by blast
  have "FunnelModel_forward cfg fns st input_ids am token_type_ids inputs_embeds ohs
      = (Inr \<lparr>last_hidden_state = out,
              hidden_states = (if ohs then map_option (\<lambda>h. hs @ h) dhs else None)\<rparr>,
         st\<lparr>encoder_structure := enc, decoder_structure := dec\<rparr>)"
    unfolding FunnelModel_forward_def Let_def x(3) prod.case x(1) sum.case e(1)
    using x(4,5) e(3) d(1) by (simp add: bs)
  then show ?thesis using x(1) enc d(2) shape1_has_shape3[OF d(2) B] by auto
qed


lemma embeddings_keep_shape_id_fns: "embeddings_keep_shape id_fns 1"
  by (simp add: embeddings_keep_shape_def id_fns_def has_shape2_def has_shape3_def)

theorem funnel_model_two_blocks_lengths_witness:
  "embeddings_keep_shape id_fns 1
   \<and> (\<exists>final hs enc.
         encoder_forward cfg_cls id_fns fresh_structure
             [[[1], [2], [3], [4], [5], [6], [7], [8], [9]]] [[1, 1, 1, 1, 1, 1, 1, 1, 1]] None False
           = (Inr (final, hs), enc)
         \<and> has_shape3 final 1 5 1 \<and> shape1 final = 5)
   \<and> (\<exists>out st'.
         FunnelModel_forward cfg_cls id_fns fresh_model (Some [[1, 2, 3, 4, 5, 6, 7, 8, 9]])
             None None None False = (Inr out, st')
         \<and> has_shape3 (last_hidden_state out) 1 9 1 \<and> shape1 (last_hidden_state out) = 9)"
proof -
  have mode: "supported_mode (pooling_type cfg_cls)" by (simp add: supported_mode_def cfg_cls_def)
  have bs: "block_sizes cfg_cls = [2, 2]" and cls: "separate_cls cfg_cls"
    and len: "2 \<le> length (block_repeats cfg_cls)"
    and reps: "\<forall>r \<in> set (block_repeats cfg_cls). 0 < r"
    by (simp_all add: cfg_cls_def)
  have input: "Some [[1, 2, 3, 4, 5, 6, 7, 8, 9 :: int]] = Some [[1, 2, 3, 4, 5, 6, 7, 8, 9]]
        \<and> (None :: tensor3 option) = None \<and> has_shape2 [[1, 2, 3, 4, 5, 6, 7, 8, 9 :: int]] 1 9
      \<or> Some [[1, 2, 3, 4, 5, 6, 7, 8, 9 :: int]] = None \<and> (None :: tensor3 option) = Some e
        \<and> has_shape3 e 1 9 1" for e
    by (simp add: has_shape2_def)
  have mask: "case (None :: tensor2 option) of None \<Rightarrow> True | Some a \<Rightarrow> has_shape2 a 1 9" by simp
  have m: "has_shape2 [[1, 1, 1, 1, 1, 1, 1, 1, 1 :: real]] 1 9" by (simp add: has_shape2_def)
  have x: "embeddings_forward id_fns (Some [[1, 2, 3, 4, 5, 6, 7, 8, 9]]) None
      = Inr [[[1], [2], [3], [4], [5], [6], [7], [8], [9]]]"
    by (simp add: embeddings_forward_def id_fns_def)
  from funnel_model_two_blocks_lengths [OF layers_keep_shape_id_fns embeddings_keep_shape_id_fns
      mode bs cls len reps _ input mask, of fresh_model None False]
  show ?thesis unfolding x using m embeddings_keep_shape_id_fns by auto
qed

text \<open>
  The claim as stated has the encoder end at sequence length 3.  With two blocks only the
  second one pools: on nine tokens the encoder's last hidden state has five.
\<close>

theorem funnel_model_encoder_length_counterexample:
  "length (block_sizes cfg_cls) = 2
   \<and> fst (encoder_forward cfg_cls id_fns fresh_structure
        [[[1], [2], [3], [4], [5], [6], [7], [8], [9]]] [[1, 1, 1, 1, 1, 1, 1, 1, 1]] None False)
     = Inr ([[[1], [5 / 2], [9 / 2], [13 / 2], [17 / 2]]], None)
   \<and> shape1 [[[1], [5 / 2], [9 / 2], [13 / 2], [17 / 2 :: real]]] \<noteq> 3"
  by code_simp

end
